theory Spec2Isabelle
  imports Main "HOL-Library.Word" "HOL-Library.Signed_Division"
begin

unbundle bit_operations_syntax

section \<open>Data model\<close>

text \<open>
  The proof-of-work code of \<^verbatim>\<open>src/pow.cpp\<close>: \<^verbatim>\<open>GetNextWorkRequired\<close>,
  \<^verbatim>\<open>CheckProofOfWork\<close>, \<^verbatim>\<open>GetBlockWork\<close> and \<^verbatim>\<open>GetBlockProof\<close>.

  Machine integers are words of the width the C++ declares: \<^verbatim>\<open>unsigned int\<close> and
  \<^verbatim>\<open>int\<close> are \<open>32 word\<close>, \<^verbatim>\<open>int64_t\<close> is \<open>64 word\<close>, \<^verbatim>\<open>uint256\<close> is \<open>256 word\<close>.
  Signed values are read with \<open>sint\<close> and compared with \<open>\<le>s\<close> and \<open><s\<close>.
  \<^verbatim>\<open>LogPrintf\<close> and \<^verbatim>\<open>error\<close> only write to the log and are left out; \<^verbatim>\<open>error\<close> returns
  \<^verbatim>\<open>false\<close>.
\<close>

type_synonym uint32 = "32 word"
type_synonym int32 = "32 word"
type_synonym int64 = "64 word"
type_synonym uint256 = "256 word"

text \<open>
  \<^verbatim>\<open>CBlockIndex\<close>: the fields this file reads. \<open>pprev\<close> is the pointer to the parent node,
  \<open>None\<close> for the null pointer. \<open>nAlgo\<close> is what \<^verbatim>\<open>GetAlgo()\<close> returns for the node.
\<close>

datatype CBlockIndex = CBlockIndex
  (nHeight: int32) (nTime: uint32) (nBits: uint32) (nAlgo: int) (pprev: "CBlockIndex option")

text \<open>\<^verbatim>\<open>CBlockHeader\<close>: the candidate header, with the fields this file reads.\<close>

record CBlockHeader =
  hdrTime :: uint32
  hdrBits :: uint32
  hdrAlgo :: int

text \<open>
  \<^verbatim>\<open>Params()\<close>: the consensus parameters of the selected network. The class
  \<^verbatim>\<open>CChainParams\<close> is declared in \<^verbatim>\<open>chainparams.h\<close>, outside this file, so the
  parameter set is an argument of every function that calls \<^verbatim>\<open>Params()\<close>.
\<close>

record CChainParams =
  ProofOfWorkLimit :: "int \<Rightarrow> uint256"
  TargetTimespan :: int64
  TargetSpacing :: int64
  Interval :: int64
  AllowMinDifficultyBlocks :: bool
  SkipProofOfWorkCheck :: bool
  BlockDiffAdjustV2 :: int64
  MaxAdjustDownV1 :: int64
  MaxAdjustUpV1 :: int64
  MaxAdjustDownV2 :: int64
  MaxAdjustUpV2 :: int64

text \<open>
  What the C++ does where it has no result: reading a field through a null pointer, and
  dividing by zero (a trap for \<^verbatim>\<open>int64_t\<close>, an exception for \<^verbatim>\<open>uint256\<close>).
\<close>

datatype error = NullPointerDereference | DivisionByZero

section \<open>The 256-bit integer and the compact codec\<close>

text \<open>
  Modelled from the spec: \<^verbatim>\<open>uint256::bits()\<close> (\<^verbatim>\<open>uint256.h\<close> is not among the
  sources). The bit length of the value: the position of the highest set bit plus one,
  and 0 for 0.
\<close>

fun bit_length :: "nat \<Rightarrow> nat" where
  "bit_length n = (if n = 0 then 0 else Suc (bit_length (n div 2)))"

declare bit_length.simps [simp del]

definition bits :: "uint256 \<Rightarrow> nat" where
  "bits x = bit_length (unat x)"

text \<open>
  Modelled from the spec: \<^verbatim>\<open>uint256::SetCompact\<close>, the decoder of the compact form
  (\<^verbatim>\<open>uint256.cpp\<close> is not among the sources). The high byte is a length in bytes, the
  low 23 bits are the mantissa, bit 23 is the sign. The result is the magnitude, the
  negative flag and the overflow flag; a zero mantissa sets neither flag.
\<close>

definition SetCompact :: "uint32 \<Rightarrow> uint256 \<times> bool \<times> bool" where
  "SetCompact nCompact =
     (let nSize = unat (drop_bit 24 nCompact);
          nWord0 = nCompact AND 0x007fffff;
          nWord = (if nSize \<le> 3 then drop_bit (8 * (3 - nSize)) nWord0 else nWord0);
          v = (if nSize \<le> 3 then ucast nWord
               else push_bit (8 * (nSize - 3)) (ucast nWord :: uint256));
          fNegative = (nWord \<noteq> 0 \<and> nCompact AND 0x00800000 \<noteq> 0);
          fOverflow = (nWord \<noteq> 0 \<and>
                       (nSize > 34 \<or> (nWord > 0xff \<and> nSize > 33)
                                   \<or> (nWord > 0xffff \<and> nSize > 32)))
      in (v, fNegative, fOverflow))"

text \<open>
  Modelled from the spec: \<^verbatim>\<open>uint256::GetCompact\<close>, the encoder, for a non-negative
  value. The length is the number of bytes of the value, the mantissa its three leading
  bytes; a mantissa that would set the sign bit is shortened by one byte and the length
  raised by one.
\<close>

definition GetCompact :: "uint256 \<Rightarrow> uint32" where
  "GetCompact x =
     (let nSize = (bits x + 7) div 8;
          nCompact = (if nSize \<le> 3
                      then ucast (push_bit (8 * (3 - nSize)) (ucast x :: 64 word))
                      else ucast (ucast (drop_bit (8 * (nSize - 3)) x) :: 64 word));
          shorten = (nCompact AND 0x00800000 \<noteq> 0);
          nCompact' = (if shorten then drop_bit 8 nCompact else nCompact);
          nSize' = (if shorten then nSize + 1 else nSize)
      in nCompact' OR push_bit 24 (of_nat nSize'))"

text \<open>
  Modelled from the spec: the conversion of an \<^verbatim>\<open>int64_t\<close> operand to \<^verbatim>\<open>uint256\<close> in
  \<^verbatim>\<open>bnNew *= nActualTimespan\<close> and \<^verbatim>\<open>bnNew /= Params().TargetTimespan()\<close>
  (the operators are declared in \<^verbatim>\<open>uint256.h\<close>). The operand is taken by its 64-bit
  pattern; for a value from 0 to \<open>2^32 - 1\<close> every conversion C++ could choose agrees
  with it.
\<close>

definition uint256_of_int64 :: "int64 \<Rightarrow> uint256" where
  "uint256_of_int64 a = ucast a"

section \<open>Signed 64-bit arithmetic\<close>

text \<open>C++ \<^verbatim>\<open>/\<close> and \<^verbatim>\<open>%\<close> on \<^verbatim>\<open>int64_t\<close> truncate towards zero; the divisor is not 0.\<close>

definition int64_div :: "int64 \<Rightarrow> int64 \<Rightarrow> int64" where
  "int64_div a b = word_of_int (sint a sdiv sint b)"

definition int64_mod :: "int64 \<Rightarrow> int64 \<Rightarrow> int64" where
  "int64_mod a b = word_of_int (sint a smod sint b)"

text \<open>\<^verbatim>\<open>GetBlockTime()\<close>: the 32-bit unsigned time as \<^verbatim>\<open>int64_t\<close>.\<close>

definition GetBlockTime :: "CBlockIndex \<Rightarrow> int64" where
  "GetBlockTime pindex = ucast (nTime pindex)"

definition hdrGetBlockTime :: "CBlockHeader \<Rightarrow> int64" where
  "hdrGetBlockTime pblock = ucast (hdrTime pblock)"

section \<open>The chain walker\<close>

text \<open>
  Modelled from the spec: \<^verbatim>\<open>CChain::GetLastBlockIndexForAlgo\<close> (\<^verbatim>\<open>chain.cpp\<close> is not
  among the sources). The nearest ancestor of the node, the node included, whose
  algorithm is \<open>algo\<close>; the null pointer when there is none.
\<close>

fun GetLastBlockIndexForAlgo :: "CBlockIndex option \<Rightarrow> int \<Rightarrow> CBlockIndex option" where
  "GetLastBlockIndexForAlgo None algo = None"
| "GetLastBlockIndexForAlgo (Some (CBlockIndex h t b a p)) algo =
     (if a = algo then Some (CBlockIndex h t b a p) else GetLastBlockIndexForAlgo p algo)"

section \<open>GetNextWorkRequired\<close>

text \<open>
  Lines 39 to 42, the loop of the test-network rule:
  \<^verbatim>\<open>while (pindex->pprev && pindex->nHeight % Params().Interval() != 0 && pindex->nBits == nProofOfWorkLimit) pindex = pindex->pprev;\<close>
  and the \<^verbatim>\<open>return pindex->nBits\<close> after it. The remainder is computed only when the
  parent pointer is not null.
\<close>

fun LastNonMinDifficultyBits :: "CChainParams \<Rightarrow> uint32 \<Rightarrow> CBlockIndex \<Rightarrow> error + uint32" where
  "LastNonMinDifficultyBits P nProofOfWorkLimit (CBlockIndex h t b a None) = Inr b"
| "LastNonMinDifficultyBits P nProofOfWorkLimit (CBlockIndex h t b a (Some p)) =
     (if Interval P = 0 then Inl DivisionByZero
      else if int64_mod (scast h) (Interval P) \<noteq> 0 \<and> b = nProofOfWorkLimit
      then LastNonMinDifficultyBits P nProofOfWorkLimit p
      else Inr b)"

text \<open>
  Lines 53 and 54, the loop that finds the first block of the averaging window:
  \<^verbatim>\<open>for (int i = 0; pindexFirst && i < nAveragingInterval - 1; i++) pindexFirst = chainActive.GetLastBlockIndexForAlgo(pindexFirst->pprev, algo);\<close>
  The first argument is the number of iterations still allowed by the bound on \<open>i\<close>.
\<close>

fun AveragingWindowFirst :: "nat \<Rightarrow> int \<Rightarrow> CBlockIndex option \<Rightarrow> CBlockIndex option" where
  "AveragingWindowFirst 0 algo pindexFirst = pindexFirst"
| "AveragingWindowFirst (Suc k) algo None = None"
| "AveragingWindowFirst (Suc k) algo (Some pindexFirst) =
     AveragingWindowFirst k algo (GetLastBlockIndexForAlgo (pprev pindexFirst) algo)"

text \<open>Lines 60 to 69, the limit adjustment step: the clamped \<^verbatim>\<open>nActualTimespan\<close>.\<close>

definition LimitAdjustmentStep ::
  "CChainParams \<Rightarrow> CBlockIndex \<Rightarrow> CBlockIndex \<Rightarrow> CBlockIndex \<Rightarrow> int64" where
  "LimitAdjustmentStep P pindexLast pindexPrev pindexFirst =
     (let nActualTimespan = GetBlockTime pindexPrev - GetBlockTime pindexFirst;
          nMaxAdjustDown = (if BlockDiffAdjustV2 P \<le>s scast (nHeight pindexLast + 1)
                            then MaxAdjustDownV2 P else MaxAdjustDownV1 P);
          nMaxAdjustUp = (if BlockDiffAdjustV2 P \<le>s scast (nHeight pindexLast + 1)
                          then MaxAdjustUpV2 P else MaxAdjustUpV1 P);
          nMinActualTimespan = int64_div (TargetTimespan P * (100 - nMaxAdjustUp)) 100;
          nMaxActualTimespan = int64_div (TargetTimespan P * (100 + nMaxAdjustDown)) 100;
          nActualTimespan1 = (if nActualTimespan <s nMinActualTimespan
                              then nMinActualTimespan else nActualTimespan);
          nActualTimespan2 = (if nMaxActualTimespan <s nActualTimespan1
                              then nMaxActualTimespan else nActualTimespan1)
      in nActualTimespan2)"

text \<open>Lines 71 to 94, the retarget from the bits of \<open>pindexPrev\<close> and the clamped timespan.\<close>

definition Retarget :: "CChainParams \<Rightarrow> int \<Rightarrow> CBlockIndex \<Rightarrow> int64 \<Rightarrow> error + uint32" where
  "Retarget P algo pindexPrev nActualTimespan =
     (let bnNew0 = fst (SetCompact (nBits pindexPrev));
          fShift = (bits bnNew0 > 235);
          bnNew1 = (if fShift then drop_bit 1 bnNew0 else bnNew0);
          bnNew2 = bnNew1 * uint256_of_int64 nActualTimespan
      in if uint256_of_int64 (TargetTimespan P) = 0 then Inl DivisionByZero
         else
           (let bnNew3 = bnNew2 div uint256_of_int64 (TargetTimespan P);
                bnNew4 = (if fShift then push_bit 1 bnNew3 else bnNew3);
                bnNew5 = (if bnNew4 > ProofOfWorkLimit P algo
                          then ProofOfWorkLimit P algo else bnNew4)
            in Inr (GetCompact bnNew5)))"

text \<open>
  Lines 31 to 43, the special difficulty rule of networks that allow minimum-difficulty
  blocks.
\<close>

definition MinDifficultyRule ::
  "CChainParams \<Rightarrow> uint32 \<Rightarrow> CBlockIndex \<Rightarrow> CBlockHeader \<Rightarrow> error + uint32" where
  "MinDifficultyRule P nProofOfWorkLimit pindexLast pblock =
     (if GetBlockTime pindexLast + TargetSpacing P * 2 <s hdrGetBlockTime pblock
      then Inr nProofOfWorkLimit
      else LastNonMinDifficultyBits P nProofOfWorkLimit pindexLast)"

text \<open>
  Lines 46 to 94, the normal retarget. \<open>pindexPrev\<close> is read at line 60 only after
  \<open>pindexFirst\<close> was found not null, and \<open>pindexFirst\<close> starts from \<open>pindexPrev\<close>.
\<close>

definition NormalRetarget ::
  "CChainParams \<Rightarrow> int \<Rightarrow> uint32 \<Rightarrow> CBlockIndex \<Rightarrow> error + uint32" where
  "NormalRetarget P algo nProofOfWorkLimit pindexLast =
     (let pindexPrev = GetLastBlockIndexForAlgo (Some pindexLast) algo
      in if TargetSpacing P = 0 then Inl DivisionByZero
         else
           (let nAveragingInterval = int64_div (TargetTimespan P) (TargetSpacing P);
                pindexFirst = AveragingWindowFirst
                                (nat (sint (nAveragingInterval - 1))) algo pindexPrev
            in case pindexFirst of
                 None \<Rightarrow> Inr nProofOfWorkLimit
               | Some firstNode \<Rightarrow>
                   (case pindexPrev of
                      None \<Rightarrow> Inl NullPointerDereference
                    | Some prevNode \<Rightarrow>
                        Retarget P algo prevNode
                          (LimitAdjustmentStep P pindexLast prevNode firstNode))))"

text \<open>Lines 22 to 94: everything below the height override, the genesis check first.\<close>

definition NextWorkComputed ::
  "CChainParams \<Rightarrow> CBlockIndex option \<Rightarrow> CBlockHeader \<Rightarrow> error + uint32" where
  "NextWorkComputed P pindexLast pblock =
     (let algo = hdrAlgo pblock;
          nProofOfWorkLimit = GetCompact (ProofOfWorkLimit P algo)
      in case pindexLast of
           None \<Rightarrow> Inr nProofOfWorkLimit
         | Some lastNode \<Rightarrow>
             if AllowMinDifficultyBlocks P
             then MinDifficultyRule P nProofOfWorkLimit lastNode pblock
             else NormalRetarget P algo nProofOfWorkLimit lastNode)"

text \<open>
  The function. Line 19 reads \<^verbatim>\<open>pindexLast->nHeight\<close> before anything else, also
  before the null check of line 26, so a null \<open>pindexLast\<close> ends there.
\<close>

definition GetNextWorkRequired ::
  "CChainParams \<Rightarrow> CBlockIndex option \<Rightarrow> CBlockHeader \<Rightarrow> error + uint32" where
  "GetNextWorkRequired P pindexLast pblock =
     (case pindexLast of
        None \<Rightarrow> Inl NullPointerDereference
      | Some lastNode \<Rightarrow>
          if 915235 \<le>s nHeight lastNode \<and> nHeight lastNode \<le>s 955000
          then Inr (hdrBits pblock)
          else NextWorkComputed P pindexLast pblock)"

section \<open>CheckProofOfWork\<close>

definition CheckProofOfWork :: "CChainParams \<Rightarrow> uint256 \<Rightarrow> uint32 \<Rightarrow> int \<Rightarrow> bool" where
  "CheckProofOfWork P hash compactBits algo =
     (if SkipProofOfWorkCheck P then True
      else
        (case SetCompact compactBits of (bnTarget, fNegative, fOverflow) \<Rightarrow>
           if fNegative \<or> bnTarget = 0 \<or> fOverflow \<or> bnTarget > ProofOfWorkLimit P algo
           then False
           else if hash > bnTarget then False
           else True))"

section \<open>GetBlockWork and GetBlockProof\<close>

text \<open>
  \<^verbatim>\<open>~bnTarget / (bnTarget + 1) + 1\<close> on \<^verbatim>\<open>uint256\<close>; the division operator throws when
  the divisor is 0, which is when \<open>bnTarget + 1\<close> wraps.
\<close>

definition GetBlockWork :: "CBlockIndex \<Rightarrow> error + uint256" where
  "GetBlockWork block =
     (case SetCompact (nBits block) of (bnTarget, fNegative, fOverflow) \<Rightarrow>
        if fNegative \<or> fOverflow \<or> bnTarget = 0 then Inr 0
        else if bnTarget + 1 = 0 then Inl DivisionByZero
        else Inr ((NOT bnTarget div (bnTarget + 1)) + 1))"

text \<open>
  \<^verbatim>\<open>GetAlgoWorkFactor()\<close> is a member of \<^verbatim>\<open>CBlockIndex\<close> declared in \<^verbatim>\<open>chain.h\<close>; the
  factor, as a 256-bit operand, is an argument.
\<close>

definition GetBlockProof :: "(CBlockIndex \<Rightarrow> uint256) \<Rightarrow> CBlockIndex \<Rightarrow> error + uint256" where
  "GetBlockProof GetAlgoWorkFactor block =
     (case SetCompact (nBits block) of (bnTarget, fNegative, fOverflow) \<Rightarrow>
        if fNegative \<or> fOverflow \<or> bnTarget = 0 then Inr 0
        else if bnTarget + 1 = 0 then Inl DivisionByZero
        else Inr (((NOT bnTarget div (bnTarget + 1)) + 1) * GetAlgoWorkFactor block))"

section \<open>Notions of the specification\<close>

text \<open>
  The ancestor chain of a node, the node first: what following \<open>pprev\<close> visits.
\<close>

fun ancestors :: "CBlockIndex \<Rightarrow> CBlockIndex list" where
  "ancestors (CBlockIndex h t b a None) = [CBlockIndex h t b a None]"
| "ancestors (CBlockIndex h t b a (Some p)) = CBlockIndex h t b a (Some p) # ancestors p"

text \<open>
  The condition under which the walk of the test-network rule goes on from a node: it has
  a parent, its height is not a multiple of the retarget interval, and its bits are the
  compact limit.
\<close>

definition walk_continues :: "CChainParams \<Rightarrow> uint32 \<Rightarrow> CBlockIndex \<Rightarrow> bool" where
  "walk_continues P lim n \<longleftrightarrow>
     pprev n \<noteq> None \<and> \<not> sint (Interval P) dvd sint (nHeight n) \<and> nBits n = lim"

text \<open>
  One same-algorithm step backward: from a node to the nearest node of the algorithm
  strictly above it in the chain; from the null pointer to the null pointer.
\<close>

definition StepBack :: "int \<Rightarrow> CBlockIndex option \<Rightarrow> CBlockIndex option" where
  "StepBack algo p = (case p of None \<Rightarrow> None | Some n \<Rightarrow> GetLastBlockIndexForAlgo (pprev n) algo)"

text \<open>
  A target is compactly representable, without overflow and not negative, when encoding
  it and decoding the result gives the target back with neither flag set.
\<close>

definition compact_representable :: "uint256 \<Rightarrow> bool" where
  "compact_representable t \<longleftrightarrow> SetCompact (GetCompact t) = (t, False, False)"

section \<open>Example data\<close>

text \<open>
  A main-network parameter set: the limit is \<open>2^236 - 1\<close> for every algorithm, blocks are
  150 seconds apart, the averaging window is 10 blocks, and the second rule set starts
  at height 100000. \<open>testParams\<close> is the same network with minimum-difficulty blocks
  allowed.
\<close>

definition mainParams :: CChainParams where
  "mainParams =
     \<lparr> ProofOfWorkLimit = (\<lambda>algo. 0xFFFFFFFFFFFFFFFFFFFFFFFFFFFFFFFFFFFFFFFFFFFFFFFFFFFFFFFFFFF),
       TargetTimespan = 1500, TargetSpacing = 150, Interval = 10,
       AllowMinDifficultyBlocks = False, SkipProofOfWorkCheck = False,
       BlockDiffAdjustV2 = 100000,
       MaxAdjustDownV1 = 20, MaxAdjustUpV1 = 10, MaxAdjustDownV2 = 4, MaxAdjustUpV2 = 2 \<rparr>"

definition testParams :: CChainParams where
  "testParams = mainParams \<lparr> AllowMinDifficultyBlocks := True \<rparr>"

definition exampleHeader :: CBlockHeader where
  "exampleHeader = \<lparr> hdrTime = 5000, hdrBits = 0x1c0ffff0, hdrAlgo = 0 \<rparr>"

text \<open>
  A test-network chain: two minimum-difficulty blocks on top of two blocks with real
  difficulty.
\<close>

definition testChain :: CBlockIndex where
  "testChain =
     CBlockIndex 13 5100 0x1e0fffff 0 (Some
    (CBlockIndex 12 5000 0x1e0fffff 0 (Some
    (CBlockIndex 11 1150 0x1c0ffff0 0 (Some
    (CBlockIndex 10 1000 0x1c0ffff0 0 None))))))"

text \<open>
  Main-network chains, built from (height, time, algorithm) triples, newest first, all
  with the bits \<open>0x1c0ffff0\<close>. Two algorithms alternate, 75 seconds apart, so blocks of
  one algorithm are 150 seconds apart. \<open>mainTip\<close> has ten blocks of algorithm 0 at and
  below it, \<open>shortTip\<close> only three.
\<close>

fun chainOf :: "(int32 \<times> uint32 \<times> int) list \<Rightarrow> CBlockIndex option" where
  "chainOf [] = None"
| "chainOf ((h, t, a) # older) = Some (CBlockIndex h t 0x1c0ffff0 a (chainOf older))"

definition mainBlocks :: "(int32 \<times> uint32 \<times> int) list" where
  "mainBlocks =
     [(19, 2425, 1), (18, 2350, 0), (17, 2275, 1), (16, 2200, 0),
      (15, 2125, 1), (14, 2050, 0), (13, 1975, 1), (12, 1900, 0),
      (11, 1825, 1), (10, 1750, 0), (9, 1675, 1), (8, 1600, 0),
      (7, 1525, 1), (6, 1450, 0), (5, 1375, 1), (4, 1300, 0),
      (3, 1225, 1), (2, 1150, 0), (1, 1075, 1), (0, 1000, 0)]"

definition mainTip :: CBlockIndex where
  "mainTip = CBlockIndex 20 2500 0x1c0ffff0 0 (chainOf mainBlocks)"

definition shortTip :: CBlockIndex where
  "shortTip = CBlockIndex 4 1300 0x1c0ffff0 0 (chainOf [(3, 1225, 1), (2, 1150, 0), (1, 1075, 1), (0, 1000, 0)])"

text \<open>A block index node with the given bits; the work functions read nothing else.\<close>

definition blockWithBits :: "uint32 \<Rightarrow> CBlockIndex" where
  "blockWithBits b = CBlockIndex 0 0 b 0 None"

section \<open>Signed arithmetic and the height override\<close>

lemma sint_scast_32_64: "sint (scast (h :: 32 word) :: 64 word) = sint h"
  by (simp add: sint_up_scast is_up)

lemma sint_word_of_int_64:
  "- (2 ^ 63) \<le> r \<Longrightarrow> r < 2 ^ 63 \<Longrightarrow> sint (word_of_int r :: 64 word) = r"
  by (simp add: sint_sbintrunc' signed_take_bit_int_eq_self)

lemma word_of_int_64_eq_0:
  assumes "- (2 ^ 63) \<le> r" "r < 2 ^ 63"
  shows "((word_of_int r :: 64 word) = 0) = (r = 0)"
proof
  assume "(word_of_int r :: 64 word) = 0"
  then have "sint (word_of_int r :: 64 word) = 0" by simp
  moreover have "sint (word_of_int r :: 64 word) = r"
    using assms by (rule sint_word_of_int_64)
  ultimately show "r = 0" by simp
qed simp

lemma smod_eq_0_iff_dvd: "b \<noteq> 0 \<Longrightarrow> ((a :: int) smod b = 0) = (b dvd a)"
  by (auto simp add: smod_int_alt_def sgn_if dvd_eq_mod_eq_0 [symmetric] mod_eq_0_iff_dvd)

lemma int64_mod_eq_0_iff:
  assumes "I \<noteq> 0"
  shows "(int64_mod (scast (h :: 32 word)) I = 0) = (sint I dvd sint h)"
proof -
  have nz: "sint I \<noteq> 0" using assms by (simp add: signed_eq_0_iff)
  have r: "sint h smod sint I \<in> {- \<bar>sint I\<bar> + 1..\<bar>sint I\<bar> - 1}"
    using smod_int_range [OF nz] .
  have "- (2 ^ 63) \<le> sint I" "sint I < 2 ^ 63"
    using sint_ge [of I] sint_lt [of I] by simp_all
  then have "- (2 ^ 63) \<le> sint h smod sint I" "sint h smod sint I < 2 ^ 63"
    using r by auto
  then show ?thesis
    by (simp add: int64_mod_def sint_scast_32_64 word_of_int_64_eq_0 smod_eq_0_iff_dvd [OF nz])
qed

lemma sint_int64_div:
  assumes "sint a sdiv sint b \<noteq> 2 ^ 63"
  shows "sint (int64_div a b) = sint a sdiv sint b"
proof -
  have "sint a sdiv sint b \<in> {- \<bar>sint a\<bar>..\<bar>sint a\<bar>}"
    by (rule sdiv_int_range)
  moreover have "- (2 ^ 63) \<le> sint a" "sint a < 2 ^ 63"
    using sint_ge [of a] sint_lt [of a] by simp_all
  ultimately have "- (2 ^ 63) \<le> sint a sdiv sint b" "sint a sdiv sint b < 2 ^ 63"
    using assms by auto
  then show ?thesis
    by (simp add: int64_div_def sint_word_of_int_64)
qed

lemma sint_int64_div_100: "sint (int64_div a 100) = sint a sdiv 100"
proof -
  have s: "sint (100 :: int64) = 100" by simp
  have "- (2 ^ 63) \<le> sint a" "sint a < 2 ^ 63"
    using sint_ge [of a] sint_lt [of a] by simp_all
  then have "sint a sdiv 100 < 2 ^ 63"
    by (cases "0 \<le> sint a") (auto simp add: signed_divide_int_def sgn_if)
  then show ?thesis
    using sint_int64_div [of a 100] by (simp add: s)
qed

lemma sint_ucast_32_64: "sint (ucast (t :: 32 word) :: 64 word) = uint t"
proof -
  have b: "0 \<le> uint t" "uint t < 2 ^ 32"
    using uint_lt2p [of t] by simp_all
  have u: "uint (ucast t :: 64 word) = uint t"
    using b by (simp add: unsigned_ucast_eq take_bit_int_eq_self)
  have "sint (ucast t :: 64 word) = signed_take_bit 63 (uint (ucast t :: 64 word))"
    by (simp add: sint_uint)
  also have "\<dots> = uint t"
  proof -
    have "- (2 ^ 63) \<le> (0 :: int)" by simp
    then have lo: "- (2 ^ 63) \<le> uint t"
      using b(1) by (rule order_trans)
    have "(2 :: int) ^ 32 \<le> 2 ^ 63" by simp
    with b(2) have hi: "uint t < 2 ^ 63"
      by (rule less_le_trans)
    show ?thesis
      unfolding u using lo hi by (rule signed_take_bit_int_eq_self)
  qed
  finally show ?thesis .
qed

lemma time_comparison:
  assumes "- (2 ^ 61) \<le> sint (TargetSpacing P)" and "sint (TargetSpacing P) < 2 ^ 61"
  shows "(sint (GetBlockTime pindexLast + TargetSpacing P * 2) < sint (hdrGetBlockTime pblock))
       = (uint (nTime pindexLast) + 2 * sint (TargetSpacing P) < uint (hdrTime pblock))"
proof -
  have b: "0 \<le> uint (nTime pindexLast)" "uint (nTime pindexLast) < 2 ^ 32"
    using uint_lt2p [of "nTime pindexLast"] by simp_all
  have m: "sint (TargetSpacing P * 2) = sint (TargetSpacing P) * 2"
  proof -
    have "sint (TargetSpacing P * 2) = signed_take_bit 63 (sint (TargetSpacing P) * sint (2 :: int64))"
      by (simp add: sint_word_mult)
    also have "\<dots> = sint (TargetSpacing P) * 2"
      using assms by (simp add: signed_take_bit_int_eq_self)
    finally show ?thesis .
  qed
  have "sint (GetBlockTime pindexLast + TargetSpacing P * 2)
      = signed_take_bit 63 (uint (nTime pindexLast) + sint (TargetSpacing P) * 2)"
    by (simp add: sint_word_add GetBlockTime_def sint_ucast_32_64 m)
  also have "\<dots> = uint (nTime pindexLast) + sint (TargetSpacing P) * 2"
  proof -
    have "- (2 ^ 63) \<le> 0 + (- (2 ^ 61)) * (2 :: int)" by simp
    also have "\<dots> \<le> uint (nTime pindexLast) + sint (TargetSpacing P) * 2"
      using assms(1) b(1) by (intro add_mono mult_right_mono) simp_all
    finally have lo: "- (2 ^ 63) \<le> uint (nTime pindexLast) + sint (TargetSpacing P) * 2" .
    have "uint (nTime pindexLast) + sint (TargetSpacing P) * 2 < 2 ^ 32 + 2 ^ 61 * 2"
      using assms(2) b(2) by (intro add_strict_mono) simp_all
    also have "\<dots> \<le> (2 :: int) ^ 63" by simp
    finally have hi: "uint (nTime pindexLast) + sint (TargetSpacing P) * 2 < 2 ^ 63" .
    show ?thesis
      using lo hi by (rule signed_take_bit_int_eq_self)
  qed
  finally show ?thesis
    by (simp add: hdrGetBlockTime_def sint_ucast_32_64 mult.commute)
qed


lemma time_difference:
  "sint (GetBlockTime pindexPrev - GetBlockTime pindexFirst)
     = uint (nTime pindexPrev) - uint (nTime pindexFirst)"
proof -
  have p: "0 \<le> uint (nTime pindexPrev)" "uint (nTime pindexPrev) < 2 ^ 32"
    and f: "0 \<le> uint (nTime pindexFirst)" "uint (nTime pindexFirst) < 2 ^ 32"
    using uint_lt2p [of "nTime pindexPrev"] uint_lt2p [of "nTime pindexFirst"] by simp_all
  have "sint (GetBlockTime pindexPrev - GetBlockTime pindexFirst)
      = signed_take_bit 63 (uint (nTime pindexPrev) - uint (nTime pindexFirst))"
    by (simp add: sint_word_diff GetBlockTime_def sint_ucast_32_64)
  also have "\<dots> = uint (nTime pindexPrev) - uint (nTime pindexFirst)"
  proof -
    have "- (2 ^ 63) \<le> 0 - (2 :: int) ^ 32" by simp
    also have "\<dots> \<le> uint (nTime pindexPrev) - uint (nTime pindexFirst)"
      using p(1) f(2) by (intro diff_mono) simp_all
    finally have lo: "- (2 ^ 63) \<le> uint (nTime pindexPrev) - uint (nTime pindexFirst)" .
    have "uint (nTime pindexPrev) - uint (nTime pindexFirst) \<le> uint (nTime pindexPrev)"
      by simp
    also have "\<dots> < 2 ^ 32"
      by (rule p(2))
    also have "\<dots> \<le> (2 :: int) ^ 63" by simp
    finally have hi: "uint (nTime pindexPrev) - uint (nTime pindexFirst) < 2 ^ 63" .
    show ?thesis
      using lo hi by (rule signed_take_bit_int_eq_self)
  qed
  finally show ?thesis .
qed

lemma override_outside:
  "sint (nHeight lastNode) < 915235 \<or> 955000 < sint (nHeight lastNode) \<Longrightarrow>
   GetNextWorkRequired P (Some lastNode) pblock = NextWorkComputed P (Some lastNode) pblock"
  by (auto simp add: GetNextWorkRequired_def word_sle_eq)

section \<open>The compact codec: decoding an encoded value\<close>

lemma bit_length_upper: "n < 2 ^ bit_length n"
proof (induction n rule: bit_length.induct)
  case (1 n)
  show ?case
  proof (cases "n = 0")
    case True
    then show ?thesis by (simp add: bit_length.simps)
  next
    case False
    then have "n div 2 < 2 ^ bit_length (n div 2)"
      using "1.IH" by simp
    then have "n < 2 * 2 ^ bit_length (n div 2)"
      by linarith
    then show ?thesis
      using False by (subst bit_length.simps) simp
  qed
qed

lemma bit_length_le: "n < 2 ^ k \<Longrightarrow> bit_length n \<le> k"
proof (induction n arbitrary: k rule: bit_length.induct)
  case (1 n)
  show ?case
  proof (cases "n = 0")
    case True
    then show ?thesis by (simp add: bit_length.simps)
  next
    case False
    then obtain j where k: "k = Suc j"
      using "1.prems" by (cases k) auto
    have "n div 2 < 2 ^ j"
      using "1.prems" by (simp add: k)
    then have "bit_length (n div 2) \<le> j"
      using "1.IH" False by simp
    then show ?thesis
      using False by (subst bit_length.simps) (simp add: k)
  qed
qed

lemma bits_le_256: "bits x \<le> 256"
  unfolding bits_def by (rule bit_length_le) (use unsigned_less [of x] in simp)

lemma nSize_le_32: "(bits x + 7) div 8 \<le> 32"
  using bits_le_256 [of x] by simp

lemma unat_less_bytes: "unat x < 2 ^ (8 * ((bits x + 7) div 8))"
proof -
  have "unat x < 2 ^ bits x"
    unfolding bits_def by (rule bit_length_upper)
  also have "(2 :: nat) ^ bits x \<le> 2 ^ (8 * ((bits x + 7) div 8))"
    by (rule power_increasing) simp_all
  finally show ?thesis .
qed


lemma unat_ucast_le: "unat (ucast (w :: 'a::len word) :: 'b::len word) \<le> unat w"
  by (simp add: unsigned_ucast_eq)

lemma unat_push_bit_le: "unat (push_bit k (w :: 'a::len word)) \<le> unat w * 2 ^ k"
proof -
  have "unat (push_bit k w) = take_bit LENGTH('a) (push_bit k (unat w))"
    by (rule unsigned_push_bit_eq)
  also have "\<dots> \<le> push_bit k (unat w)"
    by (rule take_bit_nat_less_eq_self)
  also have "\<dots> = unat w * 2 ^ k"
    by (rule push_bit_eq_mult)
  finally show ?thesis .
qed

lemma unat_drop_bit_div: "unat (drop_bit k (w :: 'a::len word)) = unat w div 2 ^ k"
proof -
  have "unat (drop_bit k w) = drop_bit k (unat w)"
    by (rule unat_drop_bit_eq)
  also have "\<dots> = unat w div 2 ^ k"
    by (rule drop_bit_eq_div)
  finally show ?thesis .
qed

lemma GetCompact_mantissa:
  fixes x :: uint256
  assumes "n = (bits x + 7) div 8"
    and "m = (if n \<le> 3 then ucast (push_bit (8 * (3 - n)) (ucast x :: 64 word))
              else ucast (ucast (drop_bit (8 * (n - 3)) x) :: 64 word) :: uint32)"
  shows "unat m < 2 ^ 24"
    and "n \<le> 3 \<Longrightarrow> unat m \<le> unat x * 2 ^ (8 * (3 - n))"
    and "3 < n \<Longrightarrow> unat m \<le> unat x div 2 ^ (8 * (n - 3))"
proof -
  have x: "unat x < 2 ^ (8 * n)"
    unfolding assms(1) by (rule unat_less_bytes)
  have small: "unat m \<le> unat x * 2 ^ (8 * (3 - n))" if "n \<le> 3"
  proof -
    have "unat m \<le> unat (push_bit (8 * (3 - n)) (ucast x :: 64 word))"
      using that by (simp add: assms(2) unat_ucast_le)
    also have "\<dots> \<le> unat (ucast x :: 64 word) * 2 ^ (8 * (3 - n))"
      by (rule unat_push_bit_le)
    also have "\<dots> \<le> unat x * 2 ^ (8 * (3 - n))"
      by (rule mult_le_mono1) (rule unat_ucast_le)
    finally show ?thesis .
  qed
  have large: "unat m \<le> unat x div 2 ^ (8 * (n - 3))" if "3 < n"
  proof -
    have "unat m \<le> unat (ucast (drop_bit (8 * (n - 3)) x) :: 64 word)"
      using that by (simp add: assms(2) unat_ucast_le)
    also have "\<dots> \<le> unat (drop_bit (8 * (n - 3)) x)"
      by (rule unat_ucast_le)
    also have "\<dots> = unat x div 2 ^ (8 * (n - 3))"
      by (rule unat_drop_bit_div)
    finally show ?thesis .
  qed
  show "unat m < 2 ^ 24"
  proof (cases "n \<le> 3")
    case True
    have "unat x * 2 ^ (8 * (3 - n)) < 2 ^ (8 * n) * 2 ^ (8 * (3 - n))"
      using x by simp
    also have "\<dots> = 2 ^ 24"
    proof -
      have "8 * n + 8 * (3 - n) = 24"
        using True by simp
      then show ?thesis
        by (simp only: power_add [symmetric])
    qed
    finally show ?thesis
      using small [OF True] by simp
  next
    case False
    have "8 * n = 24 + 8 * (n - 3)"
      using False by simp
    then have "(2 :: nat) ^ (8 * n) = 2 ^ (24 + 8 * (n - 3))"
      by simp
    then have "(2 :: nat) ^ (8 * n) = 2 ^ 24 * 2 ^ (8 * (n - 3))"
      by (simp only: power_add)
    then have "unat x div 2 ^ (8 * (n - 3)) < 2 ^ 24"
      using x by (simp add: less_mult_imp_div_less)
    then show ?thesis
      using large False by simp
  qed
  show "n \<le> 3 \<Longrightarrow> unat m \<le> unat x * 2 ^ (8 * (3 - n))"
    by (rule small)
  show "3 < n \<Longrightarrow> unat m \<le> unat x div 2 ^ (8 * (n - 3))"
    by (rule large)
qed


lemma nat_bit_bound:
  fixes m :: nat
  assumes "m < 2 ^ k" and "bit m n"
  shows "n < k"
proof (rule ccontr)
  assume "\<not> n < k"
  then have "(2 :: nat) ^ k \<le> 2 ^ n"
    by (intro power_increasing) simp_all
  with assms(1) have "m < 2 ^ n"
    by (rule less_le_trans)
  then have "m div 2 ^ n = 0"
    by simp
  then have "\<not> bit m n"
    by (simp add: bit_iff_odd)
  then show False
    using assms(2) by simp
qed

lemma word_bit_bound:
  fixes w :: "'a::len word"
  assumes "unat w < 2 ^ k" and "bit w n"
  shows "n < k"
proof -
  have "bit (unat w) n"
    using assms(2) by (simp add: bit_unsigned_iff)
  with assms(1) show ?thesis
    by (rule nat_bit_bound)
qed

lemma compact_size_field:
  fixes m :: uint32
  assumes "unat m < 2 ^ 24" and "s < 256"
  shows "unat (drop_bit 24 (m OR push_bit 24 (of_nat s))) = s"
proof -
  have s8: "s < 2 ^ 8"
    using assms(2) by simp
  have "drop_bit 24 (m OR push_bit 24 (of_nat s)) = (of_nat s :: uint32)"
  proof (rule bit_eqI)
    fix i
    have "\<not> bit m (i + 24)" and "\<not> bit m (24 + i)"
      using word_bit_bound [OF assms(1), of "i + 24"] word_bit_bound [OF assms(1), of "24 + i"]
      by auto
    moreover have "i < 8" if "bit s i"
      using nat_bit_bound [OF s8 that] .
    ultimately show "bit (drop_bit 24 (m OR push_bit 24 (of_nat s))) i = bit (of_nat s :: uint32) i"
      by (auto simp add: bit_simps)
  qed
  then show ?thesis
    using assms(2) by (simp add: unat_of_nat)
qed

lemma compact_mantissa_field:
  fixes m :: uint32
  shows "(m OR push_bit 24 s) AND 0x007fffff = m AND 0x007fffff"
proof -
  have c: "(0x007fffff :: uint32) = mask 23"
    by (simp add: mask_eq_exp_minus_1)
  show ?thesis
    unfolding c by (rule bit_eqI) (auto simp add: bit_simps)
qed

lemma bit_sign_constant: "bit (0x00800000 :: uint32) n \<longleftrightarrow> n = 23"
proof -
  have c: "(0x00800000 :: uint32) = 2 ^ 23"
    by simp
  have "bit (2 ^ 23 :: uint32) n \<longleftrightarrow> n = 23"
    by (subst bit_exp_iff) auto
  then show ?thesis
    by (simp only: c)
qed

lemma compact_sign_field:
  fixes m :: uint32
  shows "(m OR push_bit 24 s) AND 0x00800000 = m AND 0x00800000"
proof (rule bit_eqI)
  fix n
  have "\<not> bit (push_bit 24 s) (23 :: nat)"
    by (simp add: bit_push_bit_iff)
  then show "bit ((m OR push_bit 24 s) AND 0x00800000) n = bit (m AND 0x00800000) n"
    by (simp only: bit_and_iff bit_or_iff bit_sign_constant) auto
qed


lemma div_pow_le:
  fixes a b :: nat
  assumes "a \<le> b * 2 ^ j"
  shows "a div 2 ^ j \<le> b"
proof -
  have "a div 2 ^ j \<le> (b * 2 ^ j) div 2 ^ j"
    using assms by (rule div_le_mono)
  then show ?thesis by simp
qed

lemma div_div_pow:
  fixes a :: nat
  shows "(a div 2 ^ i) div 2 ^ j = a div 2 ^ (i + j)"
  by (simp add: div_mult2_eq power_add)

lemma unat_and_le: "unat (a AND b) \<le> unat (a :: 'a::len word)"
  using word_and_le2 [of a b] by (simp add: word_le_nat_alt)

lemma GetCompact_fields:
  fixes x :: uint256
  assumes "n = (bits x + 7) div 8"
    and "m = (if n \<le> 3 then ucast (push_bit (8 * (3 - n)) (ucast x :: 64 word))
              else ucast (ucast (drop_bit (8 * (n - 3)) x) :: 64 word) :: uint32)"
    and "sh = (m AND 0x00800000 \<noteq> 0)"
    and "m' = (if sh then drop_bit 8 m else m)"
    and "n' = (if sh then n + 1 else n)"
  shows "GetCompact x = m' OR push_bit 24 (of_nat n')"
    and "unat m' < 2 ^ 24"
    and "n' \<le> 33"
    and "unat (drop_bit 24 (GetCompact x)) = n'"
    and "GetCompact x AND 0x007fffff = m' AND 0x007fffff"
    and "GetCompact x AND 0x00800000 = m' AND 0x00800000"
proof -
  show enc: "GetCompact x = m' OR push_bit 24 (of_nat n')"
    by (simp add: GetCompact_def Let_def assms)
  have "unat m' \<le> unat m"
    by (simp add: assms(4) unat_drop_bit_div)
  then show m': "unat m' < 2 ^ 24"
    using GetCompact_mantissa(1) [OF assms(1,2)] by simp
  show n': "n' \<le> 33"
    using nSize_le_32 [of x] by (simp add: assms(1,5))
  then have "n' < 256" by simp
  then show "unat (drop_bit 24 (GetCompact x)) = n'"
    unfolding enc using m' by (intro compact_size_field)
  show "GetCompact x AND 0x007fffff = m' AND 0x007fffff"
    unfolding enc by (rule compact_mantissa_field)
  show "GetCompact x AND 0x00800000 = m' AND 0x00800000"
    unfolding enc by (rule compact_sign_field)
qed

lemma SetCompact_GetCompact_le: "fst (SetCompact (GetCompact x)) \<le> x"
proof -
  define n where "n = (bits x + 7) div 8"
  define m :: uint32 where
    "m = (if n \<le> 3 then ucast (push_bit (8 * (3 - n)) (ucast x :: 64 word))
          else ucast (ucast (drop_bit (8 * (n - 3)) x) :: 64 word))"
  define sh where "sh = (m AND 0x00800000 \<noteq> 0)"
  define m' where "m' = (if sh then drop_bit 8 m else m)"
  define n' where "n' = (if sh then n + 1 else n)"
  define w where "w = m' AND 0x007fffff"
  note f = GetCompact_fields [OF n_def m_def sh_def m'_def n'_def]
  note g = GetCompact_mantissa [OF n_def m_def]
  have wm: "unat w \<le> unat m'"
    unfolding w_def by (rule unat_and_le)
  have dec: "fst (SetCompact (GetCompact x)) =
      (if n' \<le> 3 then ucast (drop_bit (8 * (3 - n')) w) else push_bit (8 * (n' - 3)) (ucast w))"
    by (simp add: SetCompact_def Let_def f(4) f(5) w_def)
  have "unat (fst (SetCompact (GetCompact x))) \<le> unat x"
  proof (cases "n' \<le> 3")
    case True
    have "unat (fst (SetCompact (GetCompact x))) \<le> unat (drop_bit (8 * (3 - n')) w)"
      using True by (simp add: dec unat_ucast_le)
    also have "\<dots> = unat w div 2 ^ (8 * (3 - n'))"
      by (rule unat_drop_bit_div)
    also have "\<dots> \<le> unat m' div 2 ^ (8 * (3 - n'))"
      using wm by (rule div_le_mono)
    also have "\<dots> \<le> unat x"
    proof (cases sh)
      case False
      then have "m' = m" "n' = n"
        by (simp_all add: m'_def n'_def)
      then show ?thesis
        using True g(2) by (simp add: div_pow_le)
    next
      case sh: True
      then have n: "n' = n + 1" and n2: "n \<le> 2"
        using True by (simp_all add: n'_def)
      have e: "8 + 8 * (3 - n') = 8 * (3 - n)"
        using n n2 by simp
      have "unat m' div 2 ^ (8 * (3 - n')) = (unat m div 2 ^ 8) div 2 ^ (8 * (3 - n'))"
        using sh by (simp add: m'_def unat_drop_bit_div)
      also have "\<dots> = unat m div 2 ^ (8 * (3 - n))"
        by (simp only: div_div_pow e)
      also have "\<dots> \<le> unat x"
        using g(2) n2 by (intro div_pow_le) simp
      finally show ?thesis .
    qed
    finally show ?thesis .
  next
    case False
    have "unat (fst (SetCompact (GetCompact x))) \<le> unat (ucast w :: uint256) * 2 ^ (8 * (n' - 3))"
      using False by (simp add: dec unat_push_bit_le)
    also have "\<dots> \<le> unat w * 2 ^ (8 * (n' - 3))"
      by (rule mult_le_mono1) (rule unat_ucast_le)
    also have "\<dots> \<le> unat m' * 2 ^ (8 * (n' - 3))"
      using wm by (rule mult_le_mono1)
    also have "\<dots> \<le> unat x"
    proof (cases sh)
      case sh: False
      then have e: "m' = m" "n' = n"
        by (simp_all add: m'_def n'_def)
      have "3 < n"
        using False e by simp
      then have "unat m \<le> unat x div 2 ^ (8 * (n - 3))"
        by (rule g(3))
      then have "unat m * 2 ^ (8 * (n - 3)) \<le> unat x div 2 ^ (8 * (n - 3)) * 2 ^ (8 * (n - 3))"
        by (rule mult_le_mono1)
      also have "\<dots> \<le> unat x"
        by (rule div_times_less_eq_dividend)
      finally show ?thesis
        by (simp only: e)
    next
      case sh: True
      then have n: "n' = n + 1" and mm: "unat m' = unat m div 2 ^ 8"
        by (simp_all add: n'_def m'_def unat_drop_bit_div)
      show ?thesis
      proof (cases "n \<le> 3")
        case True
        then have n3: "n = 3" and k: "8 * (n' - 3) = 8"
          using False n by simp_all
        have "unat m \<le> unat x"
          using g(2) [OF True] n3 by simp
        moreover have "unat m div 2 ^ 8 * 2 ^ 8 \<le> unat m"
          by (rule div_times_less_eq_dividend)
        ultimately show ?thesis
          by (simp only: mm k)
      next
        case large: False
        then have e: "8 * (n - 3) + 8 = 8 * (n' - 3)"
          using n by simp
        have "unat m \<le> unat x div 2 ^ (8 * (n - 3))"
          using large g(3) by simp
        then have "unat m div 2 ^ 8 \<le> (unat x div 2 ^ (8 * (n - 3))) div 2 ^ 8"
          by (rule div_le_mono)
        also have "\<dots> = unat x div 2 ^ (8 * (n' - 3))"
          by (simp only: div_div_pow e)
        finally have "unat m' * 2 ^ (8 * (n' - 3))
            \<le> unat x div 2 ^ (8 * (n' - 3)) * 2 ^ (8 * (n' - 3))"
          unfolding mm by (rule mult_le_mono1)
        also have "\<dots> \<le> unat x"
          by (rule div_times_less_eq_dividend)
        finally show ?thesis .
      qed
    qed
    finally show ?thesis .
  qed
  then show ?thesis
    by (simp add: word_le_nat_alt)
qed

lemma uint256_of_int64_eq_0: "(uint256_of_int64 a = 0) = (a = 0)"
proof -
  have "unat (ucast a :: uint256) = unat a"
  proof -
    have "unat a < 2 ^ 256"
      using unsigned_less [of a, where 'a = nat] by (rule less_trans) simp
    then show ?thesis
      by (simp add: unsigned_ucast_eq take_bit_nat_eq_self)
  qed
  then show ?thesis
    by (simp add: uint256_of_int64_def unat_eq_0 [symmetric])
qed

lemma unat_push_bit_1: "unat (push_bit 1 (q :: uint256)) = unat q * 2 mod 2 ^ 256"
proof -
  have "unat (push_bit 1 q) = take_bit LENGTH(256) (push_bit 1 (unat q))"
    by (rule unsigned_push_bit_eq)
  also have "\<dots> = push_bit 1 (unat q) mod 2 ^ LENGTH(256)"
    by (rule take_bit_eq_mod)
  also have "push_bit 1 (unat q) = unat q * 2 ^ 1"
    by (rule push_bit_eq_mult)
  finally show ?thesis by simp
qed

section \<open>The work quotient\<close>

lemma unat_NOT_uint256: "unat (NOT t :: uint256) = 2 ^ 256 - 1 - unat t"
proof -
  have "NOT t = - 1 - t"
    by (simp add: not_eq_complement)
  moreover have "unat (- 1 - t) = unat (- 1 :: uint256) - unat t"
    by (rule unat_sub) simp
  moreover have "unat (- 1 :: uint256) = 2 ^ 256 - 1"
    by (simp add: unsigned_minus_1_eq_mask mask_eq_exp_minus_1)
  ultimately show ?thesis by simp
qed

lemma unat_less_2p: "unat (x :: 'a::len word) < 2 ^ LENGTH('a)"
  by (rule unsigned_less)

lemma work_quotient:
  fixes n :: nat
  assumes "n + 1 \<le> N"
  shows "(N - 1 - n) div (n + 1) + 1 = N div (n + 1)"
proof -
  define m where "m = N - (n + 1)"
  have N: "N = m + (n + 1)"
    using assms by (simp add: m_def)
  have "(m + (n + 1)) div (n + 1) = m div (n + 1) + 1"
    by (rule div_add_self2) simp
  moreover have "N - 1 - n = m"
    by (simp add: m_def)
  ultimately show ?thesis
    by (simp only: N [symmetric])
qed

lemma work_small:
  fixes n N :: nat
  assumes "0 < n" "n + 1 < N"
  shows "(N - 1 - n) div (n + 1) + 1 < N"
proof -
  have "(N - 1 - n) div (n + 1) \<le> N - 1 - n"
    by (rule div_le_dividend)
  then show ?thesis
    using assms by linarith
qed

lemma work_identity:
  fixes t :: uint256
  assumes "t \<noteq> 0" "t + 1 \<noteq> 0"
  shows "unat (NOT t div (t + 1) + 1) = 2 ^ 256 div (unat t + 1)"
proof -
  have t1: "unat (t + 1) = unat t + 1"
    using assms(2) unatSuc [of t] by (simp add: add.commute)
  have lt: "unat t + 1 < 2 ^ 256"
    using unat_less_2p [of "t + 1"] by (simp add: t1)
  have pos: "0 < unat t"
    using assms(1) by (simp add: unat_gt_0)
  have d: "unat (NOT t div (t + 1)) = (2 ^ 256 - 1 - unat t) div (unat t + 1)"
    by (simp add: unat_div unat_NOT_uint256 t1)
  have small: "unat (NOT t div (t + 1)) + unat (1 :: uint256) < 2 ^ LENGTH(256)"
    using work_small [OF pos lt] by (simp only: d unat_1) simp
  have "unat (NOT t div (t + 1) + 1) = unat (NOT t div (t + 1)) + unat (1 :: uint256)"
    using small by (simp only: unat_add_lem [THEN iffD1])
  also have "\<dots> = (2 ^ 256 - 1 - unat t) div (unat t + 1) + 1"
    by (simp add: d)
  also have "\<dots> = 2 ^ 256 div (unat t + 1)"
    using lt by (intro work_quotient) simp
  finally show ?thesis .
qed

lemma unat_ucast_32_256: "unat (ucast (w :: 32 word) :: uint256) = unat w"
proof -
  have "unat w < 2 ^ 256"
    using unat_less_2p [of w] by (rule less_trans) simp
  then show ?thesis
    by (simp add: unsigned_ucast_eq take_bit_nat_eq_self)
qed

lemma SetCompact_not_max: "fst (SetCompact c) + 1 \<noteq> 0"
proof -
  let ?v = "fst (SetCompact c)"
  have "even ?v \<or> unat ?v < 2 ^ 32"
  proof (cases "unat (drop_bit 24 c) \<le> 3")
    case True
    then have "?v = ucast (drop_bit (8 * (3 - unat (drop_bit 24 c))) (c AND 0x007fffff))"
      by (simp add: SetCompact_def Let_def)
    moreover have "unat (ucast (w :: 32 word) :: uint256) < 2 ^ 32" for w
      using unat_less_2p [of w] by (simp add: unat_ucast_32_256)
    ultimately show ?thesis by simp
  next
    case False
    then have "?v = push_bit (8 * (unat (drop_bit 24 c) - 3)) (ucast (c AND 0x007fffff))"
      by (simp add: SetCompact_def Let_def)
    then show ?thesis using False by simp
  qed
  moreover have "odd (- 1 :: uint256)" by simp
  moreover have "unat (- 1 :: uint256) = 2 ^ 256 - 1"
    by (simp add: unsigned_minus_1_eq_mask mask_eq_exp_minus_1)
  ultimately have "?v \<noteq> - 1" by auto
  then show ?thesis
    by (simp add: add_eq_0_iff2)
qed


section \<open>The compact codec: the round trip\<close>

text \<open>
  Decoding an encoded value clears the low bytes that the mantissa cannot hold and sets
  no flag; a value that the decoder produces without overflow has no such bytes, so it
  is encoded and decoded back to itself. The representable values are therefore exactly
  the values that the decoder produces with neither flag set.
\<close>

lemma unat_ucast_exact:
  fixes w :: "'a::len word"
  assumes "unat w < 2 ^ LENGTH('b::len)"
  shows "unat (ucast w :: 'b word) = unat w"
  using assms by (simp add: unsigned_ucast_eq take_bit_nat_eq_self)

lemma unat_push_bit_exact:
  fixes w :: "'a::len word"
  assumes "unat w * 2 ^ k < 2 ^ LENGTH('a)"
  shows "unat (push_bit k w) = unat w * 2 ^ k"
proof -
  have "unat (push_bit k w) = take_bit LENGTH('a) (push_bit k (unat w))"
    by (rule unsigned_push_bit_eq)
  also have "push_bit k (unat w) = unat w * 2 ^ k"
    by (rule push_bit_eq_mult)
  also have "take_bit LENGTH('a) (unat w * 2 ^ k) = unat w * 2 ^ k"
    using assms by (rule take_bit_nat_eq_self)
  finally show ?thesis .
qed

lemma mantissa_mask_id:
  fixes m :: uint32
  assumes "unat m < 2 ^ 23"
  shows "m AND 0x007fffff = m"
proof -
  have c: "(0x007fffff :: uint32) = mask 23"
    by (simp add: mask_eq_exp_minus_1)
  show ?thesis
    unfolding c
  proof (rule bit_eqI)
    fix n
    show "bit (m AND mask 23) n = bit m n"
      using word_bit_bound [OF assms, of n] by (auto simp add: bit_simps)
  qed
qed

lemma sign_bit_clear:
  fixes m :: uint32
  assumes "unat m < 2 ^ 23"
  shows "m AND 0x00800000 = 0"
proof (rule bit_eqI)
  fix n
  have "\<not> bit m 23"
    using word_bit_bound [OF assms, of 23] by auto
  then show "bit (m AND 0x00800000) n = bit (0 :: uint32) n"
    by (simp only: bit_and_iff bit_sign_constant) auto
qed

lemma sign_bit_iff:
  fixes m :: uint32
  assumes "unat m < 2 ^ 24"
  shows "(m AND 0x00800000 \<noteq> 0) = (2 ^ 23 \<le> unat m)"
proof
  assume "m AND 0x00800000 \<noteq> 0"
  then show "2 ^ 23 \<le> unat m"
    using sign_bit_clear [of m] by (cases "unat m < 2 ^ 23") auto
next
  assume ge: "2 ^ 23 \<le> unat m"
  have "unat m div 2 ^ 23 < 2"
    using assms by (simp add: less_mult_imp_div_less)
  moreover have "0 < unat m div 2 ^ 23"
    using ge by (simp add: div_greater_zero_iff)
  ultimately have "unat m div 2 ^ 23 = 1"
    by simp
  then have "bit (unat m) 23"
    by (simp add: bit_iff_odd)
  then have "bit m 23"
    by (simp add: bit_unsigned_iff)
  then have "bit (m AND 0x00800000) 23"
    by (simp only: bit_and_iff bit_sign_constant)
  then show "m AND 0x00800000 \<noteq> 0"
    by auto
qed


lemma bit_length_lower: "n \<noteq> 0 \<Longrightarrow> 2 ^ (bit_length n - 1) \<le> n"
proof (induction n rule: bit_length.induct)
  case (1 n)
  show ?case
  proof (cases "n div 2 = 0")
    case True
    then have "bit_length (n div 2) = 0"
      by (simp add: bit_length.simps)
    then have "bit_length n = 1"
      using "1.prems" by (subst bit_length.simps) simp
    then show ?thesis
      using "1.prems" by simp
  next
    case False
    then have ih: "2 ^ (bit_length (n div 2) - 1) \<le> n div 2"
      using "1.IH" "1.prems" by simp
    have pos: "0 < bit_length (n div 2)"
      using False by (subst bit_length.simps) simp
    have "bit_length n - 1 = Suc (bit_length (n div 2) - 1)"
      using "1.prems" pos by (subst bit_length.simps) simp
    then have "(2 :: nat) ^ (bit_length n - 1) = 2 * 2 ^ (bit_length (n div 2) - 1)"
      by simp
    also have "\<dots> \<le> 2 * (n div 2)"
      using ih by simp
    also have "\<dots> \<le> n"
      by simp
    finally show ?thesis .
  qed
qed

lemma GetCompact_mantissa_exact:
  fixes x :: uint256
  assumes "n = (bits x + 7) div 8"
    and "m = (if n \<le> 3 then ucast (push_bit (8 * (3 - n)) (ucast x :: 64 word))
              else ucast (ucast (drop_bit (8 * (n - 3)) x) :: 64 word) :: uint32)"
  shows "n \<le> 3 \<Longrightarrow> unat m = unat x * 2 ^ (8 * (3 - n))"
    and "3 < n \<Longrightarrow> unat m = unat x div 2 ^ (8 * (n - 3))"
proof -
  have x: "unat x < 2 ^ (8 * n)"
    unfolding assms(1) by (rule unat_less_bytes)
  show "unat m = unat x * 2 ^ (8 * (3 - n))" if small: "n \<le> 3"
  proof -
    have "unat x * 2 ^ (8 * (3 - n)) < 2 ^ (8 * n) * 2 ^ (8 * (3 - n))"
      using x by simp
    also have "\<dots> = 2 ^ 24"
    proof -
      have "8 * n + 8 * (3 - n) = 24"
        using small by simp
      then show ?thesis
        by (simp only: power_add [symmetric])
    qed
    finally have b: "unat x * 2 ^ (8 * (3 - n)) < 2 ^ 24" .
    have le: "unat x \<le> unat x * 2 ^ (8 * (3 - n))"
      by simp
    from le b have bx: "unat x < 2 ^ 24"
      by (rule le_less_trans)
    have u1: "unat (ucast x :: 64 word) = unat x"
      by (rule unat_ucast_exact) (use bx in simp)
    have u2: "unat (push_bit (8 * (3 - n)) (ucast x :: 64 word)) = unat x * 2 ^ (8 * (3 - n))"
      unfolding u1 [symmetric] by (rule unat_push_bit_exact) (use b u1 in simp)
    have "unat m = unat (push_bit (8 * (3 - n)) (ucast x :: 64 word))"
      unfolding assms(2) using small
      by (simp only: if_True) (rule unat_ucast_exact, use b u2 in simp)
    then show ?thesis
      by (simp only: u2)
  qed
  show "unat m = unat x div 2 ^ (8 * (n - 3))" if large: "3 < n"
  proof -
    have "8 * n = 24 + 8 * (n - 3)"
      using large by simp
    then have "(2 :: nat) ^ (8 * n) = 2 ^ (24 + 8 * (n - 3))"
      by simp
    then have "(2 :: nat) ^ (8 * n) = 2 ^ 24 * 2 ^ (8 * (n - 3))"
      by (simp only: power_add)
    then have b: "unat x div 2 ^ (8 * (n - 3)) < 2 ^ 24"
      using x by (simp add: less_mult_imp_div_less)
    have d: "unat (drop_bit (8 * (n - 3)) x) = unat x div 2 ^ (8 * (n - 3))"
      by (rule unat_drop_bit_div)
    have u1: "unat (ucast (drop_bit (8 * (n - 3)) x) :: 64 word) = unat x div 2 ^ (8 * (n - 3))"
      unfolding d [symmetric] by (rule unat_ucast_exact) (use b d in simp)
    have "unat m = unat (ucast (drop_bit (8 * (n - 3)) x) :: 64 word)"
      unfolding assms(2) using large
      by (simp only: if_False not_le [symmetric]) (rule unat_ucast_exact, use b u1 in simp)
    then show ?thesis
      by (simp only: u1)
  qed
qed


lemma SetCompact_GetCompact_exact:
  fixes x :: uint256
  assumes "s = unat (drop_bit 24 (GetCompact x))"
  shows "SetCompact (GetCompact x)
           = (fst (SetCompact (GetCompact x)), False, False)"
    and "unat (fst (SetCompact (GetCompact x))) = unat x div 2 ^ (8 * (s - 3)) * 2 ^ (8 * (s - 3))"
    and "x \<noteq> 0 \<Longrightarrow> 2 ^ (8 * s - 9) \<le> unat x"
proof -
  define n where "n = (bits x + 7) div 8"
  define m :: uint32 where
    "m = (if n \<le> 3 then ucast (push_bit (8 * (3 - n)) (ucast x :: 64 word))
          else ucast (ucast (drop_bit (8 * (n - 3)) x) :: 64 word))"
  define sh where "sh = (m AND 0x00800000 \<noteq> 0)"
  define m' where "m' = (if sh then drop_bit 8 m else m)"
  define n' where "n' = (if sh then n + 1 else n)"
  note f = GetCompact_fields [OF n_def m_def sh_def m'_def n'_def]
  note g = GetCompact_mantissa [OF n_def m_def]
  note e = GetCompact_mantissa_exact [OF n_def m_def]
  have s: "s = n'"
    by (simp only: assms f(4))
  have sh_iff: "sh = (2 ^ 23 \<le> unat m)"
    unfolding sh_def using g(1) by (rule sign_bit_iff)
  have m'_sh: "unat m' = unat m div 2 ^ 8" if sh
    using that by (simp add: m'_def unat_drop_bit_div)
  have m'_no: "m' = m" "n' = n" if "\<not> sh"
    using that by (simp_all add: m'_def n'_def)
  have m16: "unat m' < 2 ^ 16" if sh
  proof -
    have "unat m < 2 ^ 16 * 2 ^ 8"
      using g(1) by simp
    then have "unat m div 2 ^ 8 < 2 ^ 16"
      by (simp add: less_mult_imp_div_less)
    then show ?thesis
      by (simp only: m'_sh [OF that])
  qed
  have m23: "unat m' < 2 ^ 23"
  proof (cases sh)
    case True
    have "(2 :: nat) ^ 16 \<le> 2 ^ 23" by simp
    with m16 [OF True] show ?thesis
      by (rule less_le_trans)
  next
    case False
    then show ?thesis
      using sh_iff by (simp add: m'_no)
  qed
  have mant: "GetCompact x AND 0x007fffff = m'"
    by (simp only: f(5) mantissa_mask_id [OF m23])
  have sign: "GetCompact x AND 0x00800000 = 0"
    by (simp only: f(6) sign_bit_clear [OF m23])
  have novf: "\<not> (32 < n' \<and> 0xffff < m')"
  proof
    assume a: "32 < n' \<and> 0xffff < m'"
    then have "sh"
      using nSize_le_32 [of x] by (cases sh) (simp_all add: n'_def n_def)
    then have "unat m' < 2 ^ 16"
      by (rule m16)
    then show False
      using a by (simp add: word_less_nat_alt)
  qed
  show "SetCompact (GetCompact x) = (fst (SetCompact (GetCompact x)), False, False)"
    using f(3) novf by (auto simp add: SetCompact_def Let_def f(4) mant sign)
  have dec: "fst (SetCompact (GetCompact x)) =
      (if n' \<le> 3 then ucast (drop_bit (8 * (3 - n')) m') else push_bit (8 * (n' - 3)) (ucast m'))"
    by (simp add: SetCompact_def Let_def f(4) mant)
  show "unat (fst (SetCompact (GetCompact x))) = unat x div 2 ^ (8 * (s - 3)) * 2 ^ (8 * (s - 3))"
  proof (cases "n' \<le> 3")
    case True
    have "unat (fst (SetCompact (GetCompact x))) = unat m' div 2 ^ (8 * (3 - n'))"
      using True by (simp add: dec unat_ucast_32_256 unat_drop_bit_div)
    also have "\<dots> = unat x"
    proof (cases sh)
      case False
      then show ?thesis
        using True e(1) by (simp add: m'_no)
    next
      case sh: True
      then have n: "n' = n + 1" and n2: "n \<le> 2"
        using True by (simp_all add: n'_def)
      have k: "8 + 8 * (3 - n') = 8 * (3 - n)"
        using n n2 by simp
      have "unat m' div 2 ^ (8 * (3 - n')) = (unat m div 2 ^ 8) div 2 ^ (8 * (3 - n'))"
        by (simp only: m'_sh [OF sh])
      also have "\<dots> = unat m div 2 ^ (8 * (3 - n))"
        by (simp only: div_div_pow k)
      also have "\<dots> = unat x"
        using e(1) n2 by simp
      finally show ?thesis .
    qed
    finally show ?thesis
      using True by (simp add: s)
  next
    case False
    have mx: "unat m' = unat x div 2 ^ (8 * (n' - 3))"
    proof (cases sh)
      case sh: False
      then show ?thesis
        using False e(2) by (simp add: m'_no)
    next
      case sh: True
      then have n: "n' = n + 1"
        by (simp add: n'_def)
      show ?thesis
      proof (cases "n \<le> 3")
        case True
        then have n3: "n = 3" and k: "8 * (n' - 3) = 8"
          using False n by simp_all
        have "unat m = unat x"
          using e(1) [OF True] n3 by simp
        then show ?thesis
          by (simp only: m'_sh [OF sh] k)
      next
        case large: False
        then have k: "8 * (n - 3) + 8 = 8 * (n' - 3)"
          using n by simp
        have "unat m = unat x div 2 ^ (8 * (n - 3))"
          using large e(2) by simp
        then have "unat m' = (unat x div 2 ^ (8 * (n - 3))) div 2 ^ 8"
          by (simp only: m'_sh [OF sh])
        also have "\<dots> = unat x div 2 ^ (8 * (n' - 3))"
          by (simp only: div_div_pow k)
        finally show ?thesis .
      qed
    qed
    have "unat m' * 2 ^ (8 * (n' - 3)) \<le> unat x"
      unfolding mx by (rule div_times_less_eq_dividend)
    also have "unat x < 2 ^ LENGTH(256)"
      by (rule unat_less_2p)
    finally have fit: "unat m' * 2 ^ (8 * (n' - 3)) < 2 ^ LENGTH(256)" .
    have "unat (push_bit (8 * (n' - 3)) (ucast m' :: uint256))
        = unat (ucast m' :: uint256) * 2 ^ (8 * (n' - 3))"
      by (rule unat_push_bit_exact) (use fit in \<open>simp add: unat_ucast_32_256\<close>)
    then show ?thesis
      using False by (simp add: dec unat_ucast_32_256 mx s)
  qed
  show "2 ^ (8 * s - 9) \<le> unat x" if nz: "x \<noteq> 0"
  proof (cases sh)
    case False
    have "unat x \<noteq> 0"
      using nz by (simp add: unat_eq_0)
    then have a: "2 ^ (bits x - 1) \<le> unat x"
      unfolding bits_def by (rule bit_length_lower)
    have b: "(2 :: nat) ^ (8 * n - 9) \<le> 2 ^ (bits x - 1)"
      by (rule power_increasing) (simp_all add: n_def)
    from b a have "2 ^ (8 * n - 9) \<le> unat x"
      by (rule order_trans)
    then show ?thesis
      using False by (simp add: s m'_no)
  next
    case True
    then have n: "n' = n + 1" and big: "2 ^ 23 \<le> unat m"
      using sh_iff by (simp_all add: n'_def)
    have "2 ^ (8 * n - 1) \<le> unat x"
    proof (cases "n \<le> 3")
      case small: True
      show ?thesis
      proof (rule ccontr)
        assume "\<not> 2 ^ (8 * n - 1) \<le> unat x"
        then have lt: "unat x < 2 ^ (8 * n - 1)"
          by simp
        have "unat x < 2 ^ (8 * n)"
          unfolding n_def by (rule unat_less_bytes)
        moreover have "unat x \<noteq> 0"
          using nz by (simp add: unat_eq_0)
        ultimately have n0: "0 < n"
          by (cases n) simp_all
        have "unat m < 2 ^ (8 * n - 1) * 2 ^ (8 * (3 - n))"
          unfolding e(1) [OF small] using lt by simp
        also have "\<dots> = 2 ^ 23"
        proof -
          have "8 * n - 1 + 8 * (3 - n) = 23"
            using small n0 by simp
          then show ?thesis
            by (simp only: power_add [symmetric])
        qed
        finally show False
          using big by simp
      qed
    next
      case large: False
      have k: "23 + 8 * (n - 3) = 8 * n - 1"
        using large by simp
      have "2 ^ 23 \<le> unat x div 2 ^ (8 * (n - 3))"
        using big large e(2) by simp
      then have "2 ^ 23 * 2 ^ (8 * (n - 3)) \<le> unat x div 2 ^ (8 * (n - 3)) * 2 ^ (8 * (n - 3))"
        by (rule mult_le_mono1)
      also have "\<dots> \<le> unat x"
        by (rule div_times_less_eq_dividend)
      finally show ?thesis
        by (simp only: power_add [symmetric] k)
    qed
    moreover have "8 * s - 9 = 8 * n - 1"
      by (simp add: s n)
    ultimately show ?thesis
      by simp
  qed
qed


lemma unat_mantissa_less: "unat (c AND 0x007fffff :: uint32) < 2 ^ 23"
proof -
  have "c AND 0x007fffff \<le> 0x007fffff"
    by (rule word_and_le1)
  then have "unat (c AND 0x007fffff) \<le> unat (0x007fffff :: uint32)"
    by (simp only: word_le_nat_alt)
  then show ?thesis
    by simp
qed

lemma SetCompact_structure:
  assumes "SetCompact c = (t, fNegative, False)" and "t \<noteq> 0"
  shows "\<exists>w j. unat t = w * 2 ^ (8 * j) \<and> w < 2 ^ 23"
proof -
  define nSize where "nSize = unat (drop_bit 24 c)"
  define w0 where "w0 = c AND 0x007fffff"
  have w23: "unat w0 < 2 ^ 23"
    unfolding w0_def by (rule unat_mantissa_less)
  show ?thesis
  proof (cases "nSize \<le> 3")
    case True
    then have "t = ucast (drop_bit (8 * (3 - nSize)) w0)"
      using assms(1) by (simp add: SetCompact_def Let_def nSize_def w0_def)
    then have "unat t = unat w0 div 2 ^ (8 * (3 - nSize))"
      by (simp add: unat_ucast_32_256 unat_drop_bit_div)
    also have "\<dots> \<le> unat w0"
      by (rule div_le_dividend)
    finally have "unat t < 2 ^ 23"
      using w23 by (rule le_less_trans)
    then have "unat t = unat t * 2 ^ (8 * 0) \<and> unat t < 2 ^ 23"
      by simp
    then show ?thesis
      by blast
  next
    case False
    then have t: "t = push_bit (8 * (nSize - 3)) (ucast w0)"
      and ovf: "\<not> (w0 \<noteq> 0 \<and> (34 < nSize \<or> (0xff < w0 \<and> 33 < nSize) \<or> (0xffff < w0 \<and> 32 < nSize)))"
      using assms(1) by (simp_all add: SetCompact_def Let_def nSize_def w0_def)
    have "w0 \<noteq> 0"
      using assms(2) t by auto
    then have c: "nSize \<le> 34" "unat w0 \<le> 0xff \<or> nSize \<le> 33" "unat w0 \<le> 0xffff \<or> nSize \<le> 32"
      using ovf by (auto simp add: word_less_nat_alt)
    have fit: "unat w0 * 2 ^ (8 * (nSize - 3)) < 2 ^ 256"
    proof -
      consider "nSize \<le> 32" | "nSize = 33" "unat w0 < 2 ^ 16" | "nSize = 34" "unat w0 < 2 ^ 8"
        using c by fastforce
      then show ?thesis
      proof cases
        case 1
        then have "(2 :: nat) ^ (8 * (nSize - 3)) \<le> 2 ^ 232"
          by (intro power_increasing) simp_all
        then have "unat w0 * 2 ^ (8 * (nSize - 3)) \<le> unat w0 * 2 ^ 232"
          by (rule mult_le_mono2)
        also have "\<dots> < 2 ^ 23 * 2 ^ 232"
          using w23 by simp
        also have "\<dots> \<le> (2 :: nat) ^ 256"
          by simp
        finally show ?thesis .
      next
        case 2
        have "unat w0 * 2 ^ (8 * (nSize - 3)) < 2 ^ 16 * 2 ^ 240"
          using 2 by simp
        also have "\<dots> = (2 :: nat) ^ 256"
          by simp
        finally show ?thesis .
      next
        case 3
        have "unat w0 * 2 ^ (8 * (nSize - 3)) < 2 ^ 8 * 2 ^ 248"
          using 3 by simp
        also have "\<dots> = (2 :: nat) ^ 256"
          by simp
        finally show ?thesis .
      qed
    qed
    have "unat t = unat (ucast w0 :: uint256) * 2 ^ (8 * (nSize - 3))"
      unfolding t by (rule unat_push_bit_exact) (use fit in \<open>simp add: unat_ucast_32_256\<close>)
    then have "unat t = unat w0 * 2 ^ (8 * (nSize - 3)) \<and> unat w0 < 2 ^ 23"
      using w23 by (simp add: unat_ucast_32_256)
    then show ?thesis
      by blast
  qed
qed

lemma SetCompact_roundtrip:
  assumes "SetCompact c = (t, fNegative, False)"
  shows "SetCompact (GetCompact t) = (t, False, False)"
proof -
  define s where "s = unat (drop_bit 24 (GetCompact t))"
  note x = SetCompact_GetCompact_exact [OF s_def]
  have "unat (fst (SetCompact (GetCompact t))) = unat t"
  proof (cases "t = 0")
    case True
    then show ?thesis
      using x(2) by simp
  next
    case False
    obtain w j where wj: "unat t = w * 2 ^ (8 * j)" "w < 2 ^ 23"
      using SetCompact_structure [OF assms False] by blast
    have "2 ^ (8 * s - 9) \<le> unat t"
      using False by (rule x(3))
    also have "unat t < 2 ^ 23 * 2 ^ (8 * j)"
      unfolding wj(1) using wj(2) by simp
    also have "\<dots> = 2 ^ (23 + 8 * j)"
      by (simp only: power_add)
    finally have "8 * s - 9 < 23 + 8 * j"
      by (simp only: power_strict_increasing_iff) 
    then have "8 * (s - 3) \<le> 8 * j"
      by simp
    then have "(2 :: nat) ^ (8 * (s - 3)) dvd 2 ^ (8 * j)"
      by (rule le_imp_power_dvd)
    then have "2 ^ (8 * (s - 3)) dvd unat t"
      unfolding wj(1) by (rule dvd_mult)
    then have "unat t div 2 ^ (8 * (s - 3)) * 2 ^ (8 * (s - 3)) = unat t"
      by (rule dvd_div_mult_self)
    then show ?thesis
      by (simp only: x(2))
  qed
  then have "fst (SetCompact (GetCompact t)) = t"
    by (simp only: word_unat_eq_iff)
  then show ?thesis
    using x(1) by simp
qed

lemma compact_representable_iff:
  "compact_representable t \<longleftrightarrow> (\<exists>c. SetCompact c = (t, False, False))"
  unfolding compact_representable_def
  using SetCompact_roundtrip by blast

text \<open>
  Two different values of the form \<open>w * 2 ^ (8 * j)\<close> with \<open>w < 2^23\<close> are apart by more than
  the \<open>2^23\<close>-th part of the smaller one, which separates their quotients.
\<close>

lemma div_antimono_gap:
  fixes a b N K :: nat
  assumes "0 < a" and "a < b" and "a \<le> (b - a) * K" and "K * a \<le> N"
  shows "N div b < N div a"
proof (rule ccontr)
  assume "\<not> N div b < N div a"
  then have le: "N div a \<le> N div b" by simp
  define q where "q = N div a"
  define d where "d = b - a"
  have b: "b = a + d" and d: "0 < d"
    using assms(2) by (simp_all add: d_def)
  have "q * b \<le> N div b * b"
    using le unfolding q_def by (rule mult_le_mono1)
  also have "\<dots> \<le> N"
    by (rule div_times_less_eq_dividend)
  finally have upper: "q * a + q * d \<le> N"
    by (simp add: b algebra_simps)
  have lower: "N < q * a + a"
    unfolding q_def using assms(1) dividend_less_div_times [of a N] by (simp add: add.commute)
  have "q * d < a"
    using upper lower by simp
  also have "a \<le> d * K"
    using assms(3) by (simp only: d_def)
  finally have "q * d < K * d"
    by (simp add: mult.commute)
  then have "q < K"
    by simp
  then have "q + 1 \<le> K"
    by simp
  then have "(q + 1) * a \<le> K * a"
    by (rule mult_le_mono1)
  also have "\<dots> \<le> N"
    by (rule assms(4))
  finally show False
    using lower by simp
qed

lemma representable_gap:
  fixes x y :: nat
  assumes "x = w1 * 2 ^ (8 * j1)" and "w1 < 2 ^ 23"
    and "y = w2 * 2 ^ (8 * j2)" and "w2 < 2 ^ 23"
    and "x < y"
  shows "x < (y - x) * 2 ^ 23"
proof -
  define j where "j = min j1 j2"
  have dx: "2 ^ (8 * j) dvd x"
    unfolding assms(1) j_def by (intro dvd_mult le_imp_power_dvd) simp
  have dy: "2 ^ (8 * j) dvd y"
    unfolding assms(3) j_def by (intro dvd_mult le_imp_power_dvd) simp
  have "2 ^ (8 * j) dvd y - x"
    using dx dy by (rule dvd_diff_nat [rotated])
  moreover have "0 < y - x"
    using assms(5) by simp
  ultimately have gap: "2 ^ (8 * j) \<le> y - x"
    by (rule dvd_imp_le)
  have "x < 2 ^ 23 * 2 ^ (8 * j)"
  proof (cases "j1 \<le> j2")
    case True
    then have "j = j1" by (simp add: j_def)
    then show ?thesis
      unfolding assms(1) using assms(2) by simp
  next
    case False
    then have "j = j2" by (simp add: j_def)
    then have "y < 2 ^ 23 * 2 ^ (8 * j)"
      unfolding assms(3) using assms(4) by simp
    with assms(5) show ?thesis
      by (rule less_trans)
  qed
  also have "\<dots> \<le> 2 ^ 23 * (y - x)"
    using gap by (rule mult_le_mono2)
  finally show ?thesis
    by (simp add: mult.commute)
qed

text \<open>
  From \<open>2^233\<close> on, every such value is a multiple of \<open>2^216\<close>, so two of them are at
  least \<open>2^216\<close> apart.
\<close>

lemma large_granule:
  fixes x :: nat
  assumes "x = w * 2 ^ (8 * j)" and "w < 2 ^ 23" and "2 ^ 233 \<le> x"
  shows "2 ^ 216 dvd x"
proof -
  have "27 \<le> j"
  proof (rule ccontr)
    assume "\<not> 27 \<le> j"
    then have "8 * j \<le> 208"
      by simp
    then have "(2 :: nat) ^ (8 * j) \<le> 2 ^ 208"
      by (intro power_increasing) simp_all
    then have "w * 2 ^ (8 * j) \<le> w * 2 ^ 208"
      by (rule mult_le_mono2)
    also have "\<dots> < 2 ^ 23 * 2 ^ 208"
      using assms(2) by simp
    also have "\<dots> \<le> (2 :: nat) ^ 233"
      by simp
    finally show False
      using assms(1,3) by simp
  qed
  then have "8 * 27 \<le> 8 * j"
    by simp
  then have "(2 :: nat) ^ (8 * 27) dvd 2 ^ (8 * j)"
    by (rule le_imp_power_dvd)
  then have "(2 :: nat) ^ (8 * 27) dvd w * 2 ^ (8 * j)"
    by (rule dvd_mult)
  then show ?thesis
    by (simp add: assms(1))
qed

section \<open>Evaluation of the example data\<close>

lemma mainLimit_compact:
  "GetCompact 0xFFFFFFFFFFFFFFFFFFFFFFFFFFFFFFFFFFFFFFFFFFFFFFFFFFFFFFFFFFF = 0x1e0fffff"
  by (simp add: GetCompact_def bits_def bit_length.simps)

lemma ex_decode: "SetCompact 0x1c0ffff0 = (0xffff000000000000000000000000000000000000000000000000000, False, False)"
  by (simp add: SetCompact_def)

lemma ex_bits: "bits 0xffff000000000000000000000000000000000000000000000000000 = 220"
  by (simp add: bits_def bit_length.simps)

lemma ex_encode: "GetCompact 0xe665800000000000000000000000000000000000000000000000000 = 0x1c0e6658"
  by (simp add: GetCompact_def bits_def bit_length.simps)

lemma ex_retarget: "Retarget mainParams 0 mainTip 1350 = Inr 0x1c0e6658"
proof -
  have nb: "nBits mainTip = 0x1c0ffff0"
    by (simp add: mainTip_def)
  have t: "uint256_of_int64 (TargetTimespan mainParams) = 1500"
    by (simp add: mainParams_def uint256_of_int64_def)
  have a: "uint256_of_int64 1350 = 1350"
    by (simp add: uint256_of_int64_def)
  have l: "ProofOfWorkLimit mainParams 0 = 0xfffffffffffffffffffffffffffffffffffffffffffffffffffffffffff"
    by (simp add: mainParams_def)
  show ?thesis
    unfolding Retarget_def Let_def nb ex_decode fst_conv ex_bits t a l
    by (simp add: ex_encode)
qed


lemma ex_window_length: "nat (sint (int64_div (TargetTimespan mainParams) (TargetSpacing mainParams) - 1))
    = Suc (Suc (Suc (Suc (Suc (Suc (Suc (Suc (Suc 0))))))))"
  by (simp add: int64_div_def mainParams_def)

lemma ex_prev: "GetLastBlockIndexForAlgo (Some mainTip) 0 = Some mainTip"
  by (simp add: mainTip_def)

lemma ex_first: "AveragingWindowFirst
    (nat (sint (int64_div (TargetTimespan mainParams) (TargetSpacing mainParams) - 1))) 0 (Some mainTip)
    = Some (CBlockIndex 2 1150 0x1c0ffff0 0 (chainOf [(1, 1075, 1), (0, 1000, 0)]))"
  unfolding ex_window_length by (simp add: mainTip_def mainBlocks_def)

lemma ex_step: "LimitAdjustmentStep mainParams mainTip mainTip
    (CBlockIndex 2 1150 0x1c0ffff0 0 (chainOf [(1, 1075, 1), (0, 1000, 0)])) = 1350"
  by (simp add: LimitAdjustmentStep_def mainParams_def mainTip_def GetBlockTime_def int64_div_def)

lemma ex_result: "GetNextWorkRequired mainParams (Some mainTip) exampleHeader = Inr 0x1c0e6658"
proof -
  have h: "hdrAlgo exampleHeader = 0"
    by (simp add: exampleHeader_def)
  have o: "sint (nHeight mainTip) < 915235 \<or> 955000 < sint (nHeight mainTip)"
    by (simp add: mainTip_def)
  have a: "\<not> AllowMinDifficultyBlocks mainParams" and s: "TargetSpacing mainParams \<noteq> 0"
    by (simp_all add: mainParams_def)
  show ?thesis
    using a s
    by (simp add: override_outside [OF o] NextWorkComputed_def NormalRetarget_def Let_def h
        ex_prev ex_first ex_step ex_retarget del: chainOf.simps)
qed

text \<open>
  The targets \<open>2^236\<close> and \<open>0x100001 * 2^216\<close> are both representable and have the same
  work, 1048575.
\<close>

lemma GetBlockWork_tie_above:
  "compact_representable 0x100000000000000000000000000000000000000000000000000000000000 \<and> compact_representable 0x100001000000000000000000000000000000000000000000000000000000
   \<and> (0x100000000000000000000000000000000000000000000000000000000000 :: uint256) < 0x100001000000000000000000000000000000000000000000000000000000 \<and> unat (0x100000000000000000000000000000000000000000000000000000000000 :: uint256) = 2 ^ 236
   \<and> GetBlockWork (blockWithBits (GetCompact 0x100000000000000000000000000000000000000000000000000000000000)) = Inr 1048575
   \<and> GetBlockWork (blockWithBits (GetCompact 0x100001000000000000000000000000000000000000000000000000000000)) = Inr 1048575"
proof -
  have e1: "GetCompact 0x100000000000000000000000000000000000000000000000000000000000 = 0x1e100000"
    by (simp add: GetCompact_def bits_def bit_length.simps)
  have e2: "GetCompact 0x100001000000000000000000000000000000000000000000000000000000 = 0x1e100001"
    by (simp add: GetCompact_def bits_def bit_length.simps)
  have d1: "SetCompact 0x1e100000 = (0x100000000000000000000000000000000000000000000000000000000000, False, False)"
    by (simp add: SetCompact_def)
  have d2: "SetCompact 0x1e100001 = (0x100001000000000000000000000000000000000000000000000000000000, False, False)"
    by (simp add: SetCompact_def)
  have w1: "GetBlockWork (blockWithBits 0x1e100000) = Inr 1048575"
    by (simp add: GetBlockWork_def blockWithBits_def d1)
  have w2: "GetBlockWork (blockWithBits 0x1e100001) = Inr 1048575"
    by (simp add: GetBlockWork_def blockWithBits_def d2)
  show ?thesis
    unfolding compact_representable_def e1 e2 d1 d2 w1 w2 by simp
qed

section \<open>CheckProofOfWork: the range check and the comparison\<close>

text \<open>
  Claim C1. \<open>CheckProofOfWork\<close> succeeds whenever the network skips the check. Otherwise
  it succeeds exactly when the decoder reports neither negative nor overflow, the decoded
  target is not zero and not above the limit of the algorithm, and the hash is at most
  the target, all read as unsigned numbers. So for bits that decode to a valid target in
  range, the result is the comparison of the hash with the target; and a target of zero,
  or one unit above the limit, fails for every hash.
\<close>

theorem CheckProofOfWork_iff:
  assumes "SetCompact compactBits = (bnTarget, fNegative, fOverflow)"
  shows "(SkipProofOfWorkCheck P \<longrightarrow> CheckProofOfWork P hash compactBits algo)
    \<and> (\<not> SkipProofOfWorkCheck P \<longrightarrow>
         CheckProofOfWork P hash compactBits algo =
           (\<not> fNegative \<and> \<not> fOverflow \<and> unat bnTarget \<noteq> 0
            \<and> unat bnTarget \<le> unat (ProofOfWorkLimit P algo)
            \<and> unat hash \<le> unat bnTarget))
    \<and> (\<not> SkipProofOfWorkCheck P \<and> \<not> fNegative \<and> \<not> fOverflow \<and> unat bnTarget \<noteq> 0
         \<and> unat bnTarget \<le> unat (ProofOfWorkLimit P algo) \<longrightarrow>
         CheckProofOfWork P hash compactBits algo = (unat hash \<le> unat bnTarget))
    \<and> (\<not> SkipProofOfWorkCheck P
         \<and> (unat bnTarget = 0 \<or> unat bnTarget = unat (ProofOfWorkLimit P algo) + 1) \<longrightarrow>
         \<not> CheckProofOfWork P hash compactBits algo)"
proof -
  have skip: "SkipProofOfWorkCheck P \<Longrightarrow> CheckProofOfWork P hash compactBits algo"
    by (simp add: CheckProofOfWork_def)
  have check: "CheckProofOfWork P hash compactBits algo =
      (\<not> fNegative \<and> \<not> fOverflow \<and> unat bnTarget \<noteq> 0
       \<and> unat bnTarget \<le> unat (ProofOfWorkLimit P algo) \<and> unat hash \<le> unat bnTarget)"
    if "\<not> SkipProofOfWorkCheck P"
    using that assms
    by (auto simp add: CheckProofOfWork_def word_le_nat_alt word_less_nat_alt unat_eq_0)
  show ?thesis
    using skip check by auto
qed

theorem CheckProofOfWork_iff_witness:
  "SetCompact 0x1e0fffff = (0xFFFFF * 2 ^ 216, False, False)
   \<and> \<not> SkipProofOfWorkCheck mainParams
   \<and> CheckProofOfWork mainParams 12345 0x1e0fffff 0
   \<and> \<not> CheckProofOfWork mainParams (2 ^ 236) 0x1e0fffff 0"
proof -
  have d: "SetCompact 0x1e0fffff = (0xFFFFF * 2 ^ 216, False, False)"
    by (simp add: SetCompact_def)
  show ?thesis
    using CheckProofOfWork_iff [OF d, of mainParams 12345 0]
      CheckProofOfWork_iff [OF d, of mainParams "2 ^ 236" 0] d
    by (simp add: mainParams_def)
qed

section \<open>GetNextWorkRequired: the height override and the null pointer\<close>

text \<open>
  Claim C3. For a last node whose height is from 915235 to 955000, both included,
  \<open>GetNextWorkRequired\<close> returns the bits of the candidate header and nothing else is
  computed. For a height outside the range, 915234 and 955001 among them, the result is
  that of the computation below the override.
\<close>

theorem GetNextWorkRequired_override:
  "(915235 \<le> sint (nHeight lastNode) \<and> sint (nHeight lastNode) \<le> 955000 \<longrightarrow>
      GetNextWorkRequired P (Some lastNode) pblock = Inr (hdrBits pblock))
   \<and> (sint (nHeight lastNode) < 915235 \<or> 955000 < sint (nHeight lastNode) \<longrightarrow>
      GetNextWorkRequired P (Some lastNode) pblock = NextWorkComputed P (Some lastNode) pblock)
   \<and> (nHeight lastNode = 915234 \<or> nHeight lastNode = 955001 \<longrightarrow>
      GetNextWorkRequired P (Some lastNode) pblock = NextWorkComputed P (Some lastNode) pblock)"
proof -
  have range: "(915235 \<le>s nHeight lastNode \<and> nHeight lastNode \<le>s 955000) =
      (915235 \<le> sint (nHeight lastNode) \<and> sint (nHeight lastNode) \<le> 955000)"
    by (simp add: word_sle_eq)
  have "sint (915234 :: int32) = 915234" and "sint (955001 :: int32) = 955001"
    by simp_all
  then have edge: "nHeight lastNode = 915234 \<or> nHeight lastNode = 955001 \<Longrightarrow>
      sint (nHeight lastNode) < 915235 \<or> 955000 < sint (nHeight lastNode)"
    by auto
  show ?thesis
    using edge range by (auto simp add: GetNextWorkRequired_def)
qed

theorem GetNextWorkRequired_override_witness:
  "GetNextWorkRequired mainParams (Some (CBlockIndex 915235 4000 0x1b0404cb 0 None)) exampleHeader
     = Inr 0x1c0ffff0
   \<and> GetNextWorkRequired mainParams (Some (CBlockIndex 955000 4000 0x1b0404cb 0 None)) exampleHeader
     = Inr 0x1c0ffff0
   \<and> GetNextWorkRequired mainParams (Some (CBlockIndex 915234 4000 0x1b0404cb 0 None)) exampleHeader
     = Inr 0x1e0fffff
   \<and> GetNextWorkRequired mainParams (Some (CBlockIndex 955001 4000 0x1b0404cb 0 None)) exampleHeader
     = Inr 0x1e0fffff"
proof -
  have lim: "GetCompact 0xFFFFFFFFFFFFFFFFFFFFFFFFFFFFFFFFFFFFFFFFFFFFFFFFFFFFFFFFFFF = 0x1e0fffff"
    by (simp add: GetCompact_def bits_def bit_length.simps)
  have nine: "nat (sint (int64_div 1500 150 - 1)) = Suc (Suc (Suc (Suc (Suc (Suc (Suc (Suc (Suc 0))))))))"
    by (simp add: int64_div_def)
  have hb: "hdrBits exampleHeader = 0x1c0ffff0"
    by (simp add: exampleHeader_def)
  have below: "NextWorkComputed mainParams (Some (CBlockIndex h 4000 0x1b0404cb 0 None)) exampleHeader
      = Inr 0x1e0fffff" for h
    by (simp add: NextWorkComputed_def NormalRetarget_def mainParams_def exampleHeader_def
        lim nine)
  show ?thesis
    using GetNextWorkRequired_override [of "CBlockIndex 915235 4000 0x1b0404cb 0 None" mainParams exampleHeader]
      GetNextWorkRequired_override [of "CBlockIndex 955000 4000 0x1b0404cb 0 None" mainParams exampleHeader]
      GetNextWorkRequired_override [of "CBlockIndex 915234 4000 0x1b0404cb 0 None" mainParams exampleHeader]
      GetNextWorkRequired_override [of "CBlockIndex 955001 4000 0x1b0404cb 0 None" mainParams exampleHeader]
    by (simp add: below hb)
qed

text \<open>
  Claim C4. With a null \<open>pindexLast\<close> (the genesis case) the function does not reach its
  genesis check: line 19 reads the height through the null pointer. The computation
  below the override, entered with the same null pointer, returns the limit of the
  candidate's algorithm in compact form.
\<close>

theorem GetNextWorkRequired_genesis:
  "GetNextWorkRequired P None pblock = Inl NullPointerDereference
   \<and> NextWorkComputed P None pblock = Inr (GetCompact (ProofOfWorkLimit P (hdrAlgo pblock)))"
  by (simp add: GetNextWorkRequired_def NextWorkComputed_def)

text \<open>
  Claim C10. When minimum-difficulty blocks are not allowed and the last node is present
  with a height outside 915235 to 955000, two candidate headers with the same algorithm
  get the same result, whatever their timestamps and bits.
\<close>

theorem GetNextWorkRequired_header_independent:
  assumes "\<not> AllowMinDifficultyBlocks P"
    and "sint (nHeight lastNode) < 915235 \<or> 955000 < sint (nHeight lastNode)"
    and "hdrAlgo pblock = hdrAlgo pblock'"
  shows "GetNextWorkRequired P (Some lastNode) pblock
       = GetNextWorkRequired P (Some lastNode) pblock'"
proof -
  have "\<not> (915235 \<le>s nHeight lastNode \<and> nHeight lastNode \<le>s 955000)"
    using assms(2) by (auto simp add: word_sle_eq)
  then show ?thesis
    using assms(1,3) by (auto simp add: GetNextWorkRequired_def NextWorkComputed_def)
qed

theorem GetNextWorkRequired_header_independent_witness:
  "\<not> AllowMinDifficultyBlocks mainParams
   \<and> sint (nHeight (CBlockIndex 20 4000 0x1b0404cb 0 None)) < 915235
   \<and> hdrAlgo exampleHeader = hdrAlgo (exampleHeader \<lparr> hdrTime := 9999, hdrBits := 0x1d00ffff \<rparr>)
   \<and> GetNextWorkRequired mainParams (Some (CBlockIndex 20 4000 0x1b0404cb 0 None)) exampleHeader
     = GetNextWorkRequired mainParams (Some (CBlockIndex 20 4000 0x1b0404cb 0 None))
         (exampleHeader \<lparr> hdrTime := 9999, hdrBits := 0x1d00ffff \<rparr>)"
proof -
  have a: "\<not> AllowMinDifficultyBlocks mainParams"
    by (simp add: mainParams_def)
  have b: "sint (nHeight (CBlockIndex 20 4000 0x1b0404cb 0 None)) < 915235
      \<or> 955000 < sint (nHeight (CBlockIndex 20 4000 0x1b0404cb 0 None))"
    by simp
  have c: "hdrAlgo exampleHeader = hdrAlgo (exampleHeader \<lparr> hdrTime := 9999, hdrBits := 0x1d00ffff \<rparr>)"
    by simp
  show ?thesis
    using GetNextWorkRequired_header_independent [OF a b c] a by simp
qed

section \<open>GetNextWorkRequired: the test-network rule\<close>

lemma LastNonMinDifficultyBits_dropWhile:
  assumes "Interval P \<noteq> 0"
  shows "\<exists>stop rest. dropWhile (walk_continues P lim) (ancestors n) = stop # rest
           \<and> LastNonMinDifficultyBits P lim n = Inr (nBits stop)"
  using assms
proof (induction P lim n rule: LastNonMinDifficultyBits.induct)
  case (1 P lim h t b a)
  show ?case by (simp add: walk_continues_def)
next
  case (2 P lim h t b a p)
  show ?case
  proof (cases "walk_continues P lim (CBlockIndex h t b a (Some p))")
    case True
    then have "int64_mod (scast h) (Interval P) \<noteq> 0 \<and> b = lim"
      using "2.prems" by (simp add: walk_continues_def int64_mod_eq_0_iff)
    then show ?thesis
      using True "2.IH" "2.prems" by simp
  next
    case False
    then have "\<not> (int64_mod (scast h) (Interval P) \<noteq> 0 \<and> b = lim)"
      using "2.prems" by (simp add: walk_continues_def int64_mod_eq_0_iff)
    then show ?thesis
      using False "2.prems" by auto
  qed
qed

text \<open>
  Claim C6. On a network that allows minimum-difficulty blocks, with the last node present
  and outside the override range: if the candidate's time is greater than the last node's
  time plus twice the target spacing (in signed 64-bit arithmetic), the result is the
  compact limit. Otherwise the result is the bits of the first node of the ancestor chain,
  starting at the last node, at which the walk does not go on: a node without parent, or
  whose height is a multiple of the retarget interval, or whose bits are not the compact
  limit. The retarget interval is not zero. For a target spacing between \<open>- 2^61\<close> and
  \<open>2^61\<close> the 64-bit comparison is the comparison of the numbers.
\<close>

theorem GetNextWorkRequired_min_difficulty:
  assumes "AllowMinDifficultyBlocks P"
    and "sint (nHeight lastNode) < 915235 \<or> 955000 < sint (nHeight lastNode)"
    and "Interval P \<noteq> 0"
  shows "(sint (GetBlockTime lastNode + TargetSpacing P * 2) < sint (hdrGetBlockTime pblock) \<longrightarrow>
           GetNextWorkRequired P (Some lastNode) pblock
             = Inr (GetCompact (ProofOfWorkLimit P (hdrAlgo pblock))))
    \<and> (\<not> sint (GetBlockTime lastNode + TargetSpacing P * 2) < sint (hdrGetBlockTime pblock) \<longrightarrow>
         (\<exists>stop rest.
            dropWhile (walk_continues P (GetCompact (ProofOfWorkLimit P (hdrAlgo pblock))))
              (ancestors lastNode) = stop # rest
            \<and> GetNextWorkRequired P (Some lastNode) pblock = Inr (nBits stop)))
    \<and> (- (2 ^ 61) \<le> sint (TargetSpacing P) \<and> sint (TargetSpacing P) < 2 ^ 61 \<longrightarrow>
         (sint (GetBlockTime lastNode + TargetSpacing P * 2) < sint (hdrGetBlockTime pblock))
           = (uint (nTime lastNode) + 2 * sint (TargetSpacing P) < uint (hdrTime pblock)))"
proof -
  have eq: "GetNextWorkRequired P (Some lastNode) pblock =
      MinDifficultyRule P (GetCompact (ProofOfWorkLimit P (hdrAlgo pblock))) lastNode pblock"
    using assms(1) by (simp add: override_outside [OF assms(2)] NextWorkComputed_def Let_def)
  have rule: "(sint (GetBlockTime lastNode + TargetSpacing P * 2) < sint (hdrGetBlockTime pblock) \<longrightarrow>
           GetNextWorkRequired P (Some lastNode) pblock
             = Inr (GetCompact (ProofOfWorkLimit P (hdrAlgo pblock))))
    \<and> (\<not> sint (GetBlockTime lastNode + TargetSpacing P * 2) < sint (hdrGetBlockTime pblock) \<longrightarrow>
         (\<exists>stop rest.
            dropWhile (walk_continues P (GetCompact (ProofOfWorkLimit P (hdrAlgo pblock))))
              (ancestors lastNode) = stop # rest
            \<and> GetNextWorkRequired P (Some lastNode) pblock = Inr (nBits stop)))"
    unfolding eq MinDifficultyRule_def word_sless_alt
    using LastNonMinDifficultyBits_dropWhile [OF assms(3)] by simp
  show ?thesis
    using rule time_comparison [of P lastNode pblock] by blast
qed

theorem GetNextWorkRequired_min_difficulty_witness:
  "AllowMinDifficultyBlocks testParams
   \<and> sint (nHeight testChain) < 915235
   \<and> Interval testParams \<noteq> 0
   \<and> GetNextWorkRequired testParams (Some testChain) (exampleHeader \<lparr> hdrTime := 5401 \<rparr>)
       = Inr 0x1e0fffff
   \<and> GetNextWorkRequired testParams (Some testChain) (exampleHeader \<lparr> hdrTime := 5400 \<rparr>)
       = Inr 0x1c0ffff0"
proof -
  have a: "AllowMinDifficultyBlocks testParams"
    by (simp add: testParams_def)
  have b: "sint (nHeight testChain) < 915235 \<or> 955000 < sint (nHeight testChain)"
    by (simp add: testChain_def)
  have c: "Interval testParams \<noteq> 0"
    by (simp add: testParams_def mainParams_def)
  have lim: "GetCompact (ProofOfWorkLimit testParams (hdrAlgo (exampleHeader \<lparr> hdrTime := t \<rparr>)))
      = 0x1e0fffff" for t
    by (simp add: testParams_def mainParams_def mainLimit_compact)
  have late: "sint (GetBlockTime testChain + TargetSpacing testParams * 2)
      < sint (hdrGetBlockTime (exampleHeader \<lparr> hdrTime := 5401 \<rparr>))"
    by (simp add: testChain_def testParams_def mainParams_def GetBlockTime_def hdrGetBlockTime_def)
  have early: "\<not> sint (GetBlockTime testChain + TargetSpacing testParams * 2)
      < sint (hdrGetBlockTime (exampleHeader \<lparr> hdrTime := 5400 \<rparr>))"
    by (simp add: testChain_def testParams_def mainParams_def GetBlockTime_def hdrGetBlockTime_def)
  have walk: "dropWhile (walk_continues testParams 0x1e0fffff) (ancestors testChain) =
      CBlockIndex 11 1150 0x1c0ffff0 0 (Some (CBlockIndex 10 1000 0x1c0ffff0 0 None))
        # [CBlockIndex 10 1000 0x1c0ffff0 0 None]"
    by (simp add: testChain_def walk_continues_def testParams_def mainParams_def)
  show ?thesis
    using GetNextWorkRequired_min_difficulty [OF a b c, of "exampleHeader \<lparr> hdrTime := 5401 \<rparr>"]
      GetNextWorkRequired_min_difficulty [OF a b c, of "exampleHeader \<lparr> hdrTime := 5400 \<rparr>"]
      a b c late early
    unfolding lim walk by (auto simp add: testChain_def)
qed

section \<open>GetNextWorkRequired: the averaging window\<close>

lemma StepBack_None: "StepBack algo None = None"
  by (simp add: StepBack_def)

lemma StepBack_funpow_None: "(StepBack algo ^^ n) None = None"
  by (induction n) (simp_all add: StepBack_None)

lemma AveragingWindowFirst_funpow:
  "AveragingWindowFirst k algo p = (StepBack algo ^^ k) p"
proof (induction k algo p rule: AveragingWindowFirst.induct)
  case (1 algo pindexFirst)
  show ?case by simp
next
  case (2 k algo)
  show ?case by (simp add: StepBack_funpow_None StepBack_None)
next
  case (3 k algo pindexFirst)
  then show ?case
    by (simp add: funpow_swap1 StepBack_def)
qed

lemma AveragingWindowFirst_None: "AveragingWindowFirst k algo None = None"
  by (cases k) simp_all

text \<open>
  Claim C7. On the normal retarget path (minimum-difficulty blocks not allowed, last node
  present and outside the override range, target spacing not zero), let \<open>pindexPrev\<close> be
  the nearest node of the candidate's algorithm at or below the last node, and
  \<open>windowLength\<close> the target timespan divided by the target spacing, truncating. The
  window start is \<open>windowLength - 1\<close> same-algorithm steps backward from \<open>pindexPrev\<close>.
  When it does not exist, in particular when \<open>pindexPrev\<close> is absent, the result is the
  compact limit and not an error; when it exists, \<open>pindexPrev\<close> exists too and the result
  is the retarget from these two nodes.
\<close>

theorem GetNextWorkRequired_window:
  assumes "\<not> AllowMinDifficultyBlocks P"
    and "sint (nHeight lastNode) < 915235 \<or> 955000 < sint (nHeight lastNode)"
    and "TargetSpacing P \<noteq> 0"
    and "algo = hdrAlgo pblock"
    and "pindexPrev = GetLastBlockIndexForAlgo (Some lastNode) algo"
    and "windowLength = int64_div (TargetTimespan P) (TargetSpacing P)"
    and "pindexFirst = (StepBack algo ^^ nat (sint (windowLength - 1))) pindexPrev"
  shows "(pindexFirst = None \<longrightarrow>
           GetNextWorkRequired P (Some lastNode) pblock = Inr (GetCompact (ProofOfWorkLimit P algo)))
    \<and> (pindexPrev = None \<longrightarrow>
           GetNextWorkRequired P (Some lastNode) pblock = Inr (GetCompact (ProofOfWorkLimit P algo)))
    \<and> (\<forall>firstNode. pindexFirst = Some firstNode \<longrightarrow>
           (\<exists>prevNode. pindexPrev = Some prevNode
              \<and> GetNextWorkRequired P (Some lastNode) pblock
                  = Retarget P algo prevNode (LimitAdjustmentStep P lastNode prevNode firstNode)))
    \<and> (sint (TargetTimespan P) sdiv sint (TargetSpacing P) \<noteq> 2 ^ 63 \<longrightarrow>
           sint windowLength = sint (TargetTimespan P) sdiv sint (TargetSpacing P))"
proof -
  have eq: "GetNextWorkRequired P (Some lastNode) pblock =
      NormalRetarget P algo (GetCompact (ProofOfWorkLimit P algo)) lastNode"
    using assms(1,4) by (simp add: override_outside [OF assms(2)] NextWorkComputed_def Let_def)
  have first: "AveragingWindowFirst (nat (sint (windowLength - 1))) algo pindexPrev = pindexFirst"
    using assms(7) by (simp add: AveragingWindowFirst_funpow)
  have none: "pindexPrev = None \<Longrightarrow> pindexFirst = None"
    using first by (simp add: AveragingWindowFirst_None)
  have 1: "pindexFirst = None \<Longrightarrow>
      GetNextWorkRequired P (Some lastNode) pblock = Inr (GetCompact (ProofOfWorkLimit P algo))"
    using assms(3) first
    by (simp add: eq NormalRetarget_def assms(5) [symmetric] assms(6) [symmetric])
  have 3: "\<exists>prevNode. pindexPrev = Some prevNode
      \<and> GetNextWorkRequired P (Some lastNode) pblock
          = Retarget P algo prevNode (LimitAdjustmentStep P lastNode prevNode firstNode)"
    if h: "pindexFirst = Some firstNode" for firstNode
  proof -
    obtain prevNode where p: "pindexPrev = Some prevNode"
      using none h by (cases pindexPrev) auto
    show ?thesis
      using assms(3) first h p
      by (simp add: eq NormalRetarget_def assms(5) [symmetric] assms(6) [symmetric])
  qed
  have 4: "sint windowLength = sint (TargetTimespan P) sdiv sint (TargetSpacing P)"
    if "sint (TargetTimespan P) sdiv sint (TargetSpacing P) \<noteq> 2 ^ 63"
  proof -
    have "sint (TargetTimespan P) sdiv sint (TargetSpacing P)
        \<in> {- \<bar>sint (TargetTimespan P)\<bar>..\<bar>sint (TargetTimespan P)\<bar>}"
      by (rule sdiv_int_range)
    moreover have "- (2 ^ 63) \<le> sint (TargetTimespan P)" "sint (TargetTimespan P) < 2 ^ 63"
      using sint_ge [of "TargetTimespan P"] sint_lt [of "TargetTimespan P"] by simp_all
    ultimately have "- (2 ^ 63) \<le> sint (TargetTimespan P) sdiv sint (TargetSpacing P)"
      "sint (TargetTimespan P) sdiv sint (TargetSpacing P) < 2 ^ 63"
      using that by auto
    then show ?thesis
      by (simp add: assms(6) int64_div_def sint_word_of_int_64)
  qed
  show ?thesis
    using 1 none 3 4 by blast
qed

theorem GetNextWorkRequired_window_witness:
  "\<not> AllowMinDifficultyBlocks mainParams
   \<and> sint (nHeight shortTip) < 915235
   \<and> TargetSpacing mainParams \<noteq> 0
   \<and> (StepBack 0 ^^ 9) (GetLastBlockIndexForAlgo (Some shortTip) 0) = None
   \<and> GetNextWorkRequired mainParams (Some shortTip) exampleHeader = Inr 0x1e0fffff"
proof -
  have a: "\<not> AllowMinDifficultyBlocks mainParams"
    by (simp add: mainParams_def)
  have b: "sint (nHeight shortTip) < 915235 \<or> 955000 < sint (nHeight shortTip)"
    by (simp add: shortTip_def)
  have b': "sint (nHeight shortTip) < 915235"
    by (simp add: shortTip_def)
  have c: "TargetSpacing mainParams \<noteq> 0"
    by (simp add: mainParams_def)
  have h: "hdrAlgo exampleHeader = 0"
    by (simp add: exampleHeader_def)
  have l: "GetCompact (ProofOfWorkLimit mainParams 0) = 0x1e0fffff"
    by (simp add: mainParams_def mainLimit_compact)
  have w: "(StepBack 0 ^^ Suc (Suc (Suc (Suc (Suc (Suc (Suc (Suc (Suc 0)))))))))
      (GetLastBlockIndexForAlgo (Some shortTip) 0) = None"
    by (simp add: StepBack_def shortTip_def)
  have w': "(StepBack 0 ^^ 9) (GetLastBlockIndexForAlgo (Some shortTip) 0) = None"
    using w by (simp add: eval_nat_numeral)
  show ?thesis
    using GetNextWorkRequired_window [OF a b c refl refl refl refl, of exampleHeader] a b' c w w'
    unfolding h ex_window_length l by simp
qed

section \<open>GetNextWorkRequired: the limit adjustment step\<close>

text \<open>
  Claim C5. On the normal retarget path with the window found, the adjustment bounds are
  those of the second rule set when the last node's height plus one (a 32-bit addition) is
  at least the threshold height, and those of the first rule set otherwise. The actual
  timespan, the time of \<open>pindexPrev\<close> minus the time of the window start, is clamped from
  below to \<open>TargetTimespan * (100 - nMaxAdjustUp) / 100\<close> and then from above to
  \<open>TargetTimespan * (100 + nMaxAdjustDown) / 100\<close>, both divisions truncating towards
  zero, and the retarget is computed from the clamped value; it lies between the two
  bounds whenever the lower bound is at most the upper one.
\<close>

theorem GetNextWorkRequired_limit_adjustment:
  assumes "\<not> AllowMinDifficultyBlocks P"
    and "sint (nHeight lastNode) < 915235 \<or> 955000 < sint (nHeight lastNode)"
    and "TargetSpacing P \<noteq> 0"
    and "GetLastBlockIndexForAlgo (Some lastNode) (hdrAlgo pblock) = Some prevNode"
    and "AveragingWindowFirst
           (nat (sint (int64_div (TargetTimespan P) (TargetSpacing P) - 1)))
           (hdrAlgo pblock) (Some prevNode) = Some firstNode"
    and "v2 = (sint (BlockDiffAdjustV2 P) \<le> sint (nHeight lastNode + 1))"
    and "nMaxAdjustUp = (if v2 then MaxAdjustUpV2 P else MaxAdjustUpV1 P)"
    and "nMaxAdjustDown = (if v2 then MaxAdjustDownV2 P else MaxAdjustDownV1 P)"
    and "lo = int64_div (TargetTimespan P * (100 - nMaxAdjustUp)) 100"
    and "hi = int64_div (TargetTimespan P * (100 + nMaxAdjustDown)) 100"
    and "actual = GetBlockTime prevNode - GetBlockTime firstNode"
    and "clamped = (if sint actual < sint lo then (if sint hi < sint lo then hi else lo)
                    else if sint hi < sint actual then hi else actual)"
  shows "GetNextWorkRequired P (Some lastNode) pblock
           = Retarget P (hdrAlgo pblock) prevNode clamped
    \<and> sint actual = uint (nTime prevNode) - uint (nTime firstNode)
    \<and> (sint lo \<le> sint hi \<longrightarrow> sint lo \<le> sint clamped \<and> sint clamped \<le> sint hi)
    \<and> sint lo = sint (TargetTimespan P * (100 - nMaxAdjustUp)) sdiv 100
    \<and> sint hi = sint (TargetTimespan P * (100 + nMaxAdjustDown)) sdiv 100
    \<and> (sint (nHeight lastNode) \<noteq> 2 ^ 31 - 1 \<longrightarrow>
          sint (nHeight lastNode + 1) = sint (nHeight lastNode) + 1)"
proof -
  have step: "LimitAdjustmentStep P lastNode prevNode firstNode = clamped"
    unfolding LimitAdjustmentStep_def Let_def word_sle_eq word_sless_alt sint_scast_32_64
      assms(6) [symmetric]
    unfolding assms(7) [symmetric] assms(8) [symmetric]
    unfolding assms(9) [symmetric] assms(10) [symmetric] assms(11) [symmetric] assms(12)
    by simp
  have eq: "GetNextWorkRequired P (Some lastNode) pblock
      = Retarget P (hdrAlgo pblock) prevNode clamped"
    using assms(1,3,4,5)
    by (simp add: override_outside [OF assms(2)] NextWorkComputed_def NormalRetarget_def
        Let_def step)
  have inside: "sint lo \<le> sint hi \<Longrightarrow> sint lo \<le> sint clamped \<and> sint clamped \<le> sint hi"
    by (simp add: assms(12))
  have lo: "sint lo = sint (TargetTimespan P * (100 - nMaxAdjustUp)) sdiv 100"
    by (simp add: assms(9) sint_int64_div_100)
  have hi: "sint hi = sint (TargetTimespan P * (100 + nMaxAdjustDown)) sdiv 100"
    by (simp add: assms(10) sint_int64_div_100)
  have succ: "sint (nHeight lastNode + 1) = sint (nHeight lastNode) + 1"
    if "sint (nHeight lastNode) \<noteq> 2 ^ 31 - 1"
  proof -
    have "- (2 ^ 31) \<le> sint (nHeight lastNode)" "sint (nHeight lastNode) < 2 ^ 31"
      using sint_ge [of "nHeight lastNode"] sint_lt [of "nHeight lastNode"] by simp_all
    then show ?thesis
      using that by (simp add: sint_word_add signed_take_bit_int_eq_self)
  qed
  have diff: "sint actual = uint (nTime prevNode) - uint (nTime firstNode)"
    by (simp only: assms(11) time_difference)
  show ?thesis
    using eq diff inside lo hi succ by blast
qed

theorem GetNextWorkRequired_limit_adjustment_witness:
  "\<not> AllowMinDifficultyBlocks mainParams
   \<and> sint (nHeight mainTip) < 915235
   \<and> TargetSpacing mainParams \<noteq> 0
   \<and> GetLastBlockIndexForAlgo (Some mainTip) (hdrAlgo exampleHeader) = Some mainTip
   \<and> GetNextWorkRequired mainParams (Some mainTip) exampleHeader = Inr 0x1c0e6658"
proof -
  have a: "\<not> AllowMinDifficultyBlocks mainParams"
    by (simp add: mainParams_def)
  have b: "sint (nHeight mainTip) < 915235 \<or> 955000 < sint (nHeight mainTip)"
    by (simp add: mainTip_def)
  have b': "sint (nHeight mainTip) < 915235"
    by (simp add: mainTip_def)
  have c: "TargetSpacing mainParams \<noteq> 0"
    by (simp add: mainParams_def)
  have h: "hdrAlgo exampleHeader = 0"
    by (simp add: exampleHeader_def)
  have p: "GetLastBlockIndexForAlgo (Some mainTip) (hdrAlgo exampleHeader) = Some mainTip"
    by (simp add: mainTip_def h)
  have f: "AveragingWindowFirst
      (nat (sint (int64_div (TargetTimespan mainParams) (TargetSpacing mainParams) - 1)))
      (hdrAlgo exampleHeader) (Some mainTip)
      = Some (CBlockIndex 2 1150 0x1c0ffff0 0 (chainOf [(1, 1075, 1), (0, 1000, 0)]))"
    unfolding ex_window_length h by (simp add: mainTip_def mainBlocks_def)
  have v: "(if sint (BlockDiffAdjustV2 mainParams) \<le> sint (nHeight mainTip + 1)
            then MaxAdjustUpV2 mainParams else MaxAdjustUpV1 mainParams) = 10"
    "(if sint (BlockDiffAdjustV2 mainParams) \<le> sint (nHeight mainTip + 1)
            then MaxAdjustDownV2 mainParams else MaxAdjustDownV1 mainParams) = 20"
    by (simp_all add: mainParams_def mainTip_def)
  have lo: "int64_div (TargetTimespan mainParams * (100 - 10)) 100 = 1350"
    and hi: "int64_div (TargetTimespan mainParams * (100 + 20)) 100 = 1800"
    by (simp_all add: mainParams_def int64_div_def)
  have t: "GetBlockTime mainTip
      - GetBlockTime (CBlockIndex 2 1150 0x1c0ffff0 0 (chainOf [(1, 1075, 1), (0, 1000, 0)])) = 1350"
    by (simp add: GetBlockTime_def mainTip_def)
  show ?thesis
    using GetNextWorkRequired_limit_adjustment [OF a b c p f refl refl refl refl refl refl refl]
      a b' c p
    unfolding v lo hi t h by (simp add: ex_retarget)
qed

section \<open>GetNextWorkRequired: the retarget\<close>

text \<open>
  Claim C2. On the normal retarget path with the window found and a target timespan that
  is not zero, the new target is computed from the decoded bits of \<open>pindexPrev\<close>: when its
  bit length is above 235 it is shifted right by one, then multiplied by the clamped
  timespan and divided, truncating, by the target timespan, in 256 bits, then shifted left
  by one if it was shifted; a result above the limit of the algorithm is replaced by the
  limit; the result is returned in compact form. The second part states the same
  computation on natural numbers, with the wrap-around at \<open>2^256\<close> written out. So the
  target decoded from the returned bits is at most the limit.
\<close>

theorem GetNextWorkRequired_retarget:
  assumes "\<not> AllowMinDifficultyBlocks P"
    and "sint (nHeight lastNode) < 915235 \<or> 955000 < sint (nHeight lastNode)"
    and "TargetSpacing P \<noteq> 0"
    and "TargetTimespan P \<noteq> 0"
    and "GetLastBlockIndexForAlgo (Some lastNode) (hdrAlgo pblock) = Some prevNode"
    and "AveragingWindowFirst
           (nat (sint (int64_div (TargetTimespan P) (TargetSpacing P) - 1)))
           (hdrAlgo pblock) (Some prevNode) = Some firstNode"
    and "actual = uint256_of_int64 (LimitAdjustmentStep P lastNode prevNode firstNode)"
    and "timespan = uint256_of_int64 (TargetTimespan P)"
    and "bnOld = fst (SetCompact (nBits prevNode))"
    and "fShift = (235 < bits bnOld)"
    and "bnNew = (if fShift then push_bit 1 ((drop_bit 1 bnOld * actual) div timespan)
                  else (bnOld * actual) div timespan)"
    and "limit = ProofOfWorkLimit P (hdrAlgo pblock)"
  shows "GetNextWorkRequired P (Some lastNode) pblock
           = Inr (GetCompact (if limit < bnNew then limit else bnNew))
    \<and> unat bnNew =
        (if fShift
         then (((unat bnOld div 2) * unat actual mod 2 ^ 256) div unat timespan) * 2 mod 2 ^ 256
         else (unat bnOld * unat actual mod 2 ^ 256) div unat timespan)
    \<and> (\<exists>compactBits. GetNextWorkRequired P (Some lastNode) pblock = Inr compactBits
          \<and> fst (SetCompact compactBits) \<le> limit)"
proof -
  have tz: "uint256_of_int64 (TargetTimespan P) \<noteq> 0"
    using assms(4) by (simp add: uint256_of_int64_eq_0)
  have path: "GetNextWorkRequired P (Some lastNode) pblock
      = Retarget P (hdrAlgo pblock) prevNode (LimitAdjustmentStep P lastNode prevNode firstNode)"
    using assms(1,3,5,6)
    by (simp add: override_outside [OF assms(2)] NextWorkComputed_def NormalRetarget_def Let_def)
  have ret: "Retarget P (hdrAlgo pblock) prevNode (LimitAdjustmentStep P lastNode prevNode firstNode)
      = Inr (GetCompact (if limit < bnNew then limit else bnNew))"
    using tz unfolding Retarget_def Let_def assms(7-12) by simp
  have res: "GetNextWorkRequired P (Some lastNode) pblock
      = Inr (GetCompact (if limit < bnNew then limit else bnNew))"
    by (simp only: path ret)
  have arith: "unat bnNew =
      (if fShift
       then (((unat bnOld div 2) * unat actual mod 2 ^ 256) div unat timespan) * 2 mod 2 ^ 256
       else (unat bnOld * unat actual mod 2 ^ 256) div unat timespan)"
  proof (cases fShift)
    case True
    have "unat bnNew = unat (push_bit 1 ((drop_bit 1 bnOld * actual) div timespan))"
      using True by (simp add: assms(11))
    also have "\<dots> = unat ((drop_bit 1 bnOld * actual) div timespan) * 2 mod 2 ^ 256"
      by (rule unat_push_bit_1)
    also have "unat ((drop_bit 1 bnOld * actual) div timespan)
        = ((unat bnOld div 2) * unat actual mod 2 ^ 256) div unat timespan"
      by (simp add: unat_div unat_word_ariths unat_drop_bit_div)
    finally show ?thesis
      using True by simp
  next
    case False
    then show ?thesis
      by (simp add: assms(11) unat_div unat_word_ariths)
  qed
  have "(if limit < bnNew then limit else bnNew) \<le> limit"
    by (simp add: not_less)
  with SetCompact_GetCompact_le [of "if limit < bnNew then limit else bnNew"]
  have bound: "fst (SetCompact (GetCompact (if limit < bnNew then limit else bnNew))) \<le> limit"
    by (rule order_trans)
  show ?thesis
    using res arith bound by blast
qed

theorem GetNextWorkRequired_retarget_witness:
  "\<not> AllowMinDifficultyBlocks mainParams
   \<and> sint (nHeight mainTip) < 915235
   \<and> TargetSpacing mainParams \<noteq> 0 \<and> TargetTimespan mainParams \<noteq> 0
   \<and> GetLastBlockIndexForAlgo (Some mainTip) (hdrAlgo exampleHeader) = Some mainTip
   \<and> GetNextWorkRequired mainParams (Some mainTip) exampleHeader = Inr 0x1c0e6658
   \<and> fst (SetCompact 0x1c0e6658) \<le> ProofOfWorkLimit mainParams (hdrAlgo exampleHeader)"
proof -
  have h: "hdrAlgo exampleHeader = 0"
    by (simp add: exampleHeader_def)
  have a: "\<not> AllowMinDifficultyBlocks mainParams"
    by (simp add: mainParams_def)
  have b: "sint (nHeight mainTip) < 915235 \<or> 955000 < sint (nHeight mainTip)"
    and b': "sint (nHeight mainTip) < 915235"
    by (simp_all add: mainTip_def)
  have c: "TargetSpacing mainParams \<noteq> 0" and d: "TargetTimespan mainParams \<noteq> 0"
    by (simp_all add: mainParams_def)
  have p: "GetLastBlockIndexForAlgo (Some mainTip) (hdrAlgo exampleHeader) = Some mainTip"
    by (simp add: h ex_prev)
  have f: "AveragingWindowFirst
      (nat (sint (int64_div (TargetTimespan mainParams) (TargetSpacing mainParams) - 1)))
      (hdrAlgo exampleHeader) (Some mainTip)
      = Some (CBlockIndex 2 1150 0x1c0ffff0 0 (chainOf [(1, 1075, 1), (0, 1000, 0)]))"
    by (simp only: h ex_first)
  show ?thesis
    using GetNextWorkRequired_retarget [OF a b c d p f refl refl refl refl refl refl]
      a b' c d p ex_result
    by auto
qed

section \<open>GetBlockWork and GetBlockProof: the work of a block\<close>

text \<open>
  Claim C8. For every bits value: when the decoder reports negative or overflow, or the
  decoded target is zero, \<open>GetBlockWork\<close> and \<open>GetBlockProof\<close> return 0. Otherwise
  \<open>GetBlockWork\<close> returns \<open>(NOT target div (target + 1)) + 1\<close> in 256 bits, which as a number
  is \<open>2^256 div (target + 1)\<close>, and \<open>GetBlockProof\<close> returns the same value multiplied, in
  256 bits, by the work factor of the block. The division never has a zero divisor.
\<close>

theorem GetBlockWork_value:
  assumes "SetCompact (nBits block) = (bnTarget, fNegative, fOverflow)"
  shows "(fNegative \<or> fOverflow \<or> bnTarget = 0 \<longrightarrow>
           GetBlockWork block = Inr 0 \<and> GetBlockProof GetAlgoWorkFactor block = Inr 0)
    \<and> (\<not> fNegative \<and> \<not> fOverflow \<and> bnTarget \<noteq> 0 \<longrightarrow>
           GetBlockWork block = Inr (NOT bnTarget div (bnTarget + 1) + 1)
         \<and> unat (NOT bnTarget div (bnTarget + 1) + 1) = 2 ^ 256 div (unat bnTarget + 1)
         \<and> GetBlockProof GetAlgoWorkFactor block
             = Inr ((NOT bnTarget div (bnTarget + 1) + 1) * GetAlgoWorkFactor block))"
proof -
  have nm: "bnTarget + 1 \<noteq> 0"
    using SetCompact_not_max [of "nBits block"] by (simp add: assms)
  have zero: "GetBlockWork block = Inr 0 \<and> GetBlockProof GetAlgoWorkFactor block = Inr 0"
    if "fNegative \<or> fOverflow \<or> bnTarget = 0"
    using that by (auto simp add: GetBlockWork_def GetBlockProof_def assms)
  have work: "GetBlockWork block = Inr (NOT bnTarget div (bnTarget + 1) + 1)
      \<and> unat (NOT bnTarget div (bnTarget + 1) + 1) = 2 ^ 256 div (unat bnTarget + 1)
      \<and> GetBlockProof GetAlgoWorkFactor block
          = Inr ((NOT bnTarget div (bnTarget + 1) + 1) * GetAlgoWorkFactor block)"
    if v: "\<not> fNegative \<and> \<not> fOverflow \<and> bnTarget \<noteq> 0"
  proof -
    have "unat (NOT bnTarget div (bnTarget + 1) + 1) = 2 ^ 256 div (unat bnTarget + 1)"
      using v nm by (intro work_identity) simp_all
    then show ?thesis
      using v nm by (simp add: GetBlockWork_def GetBlockProof_def assms)
  qed
  show ?thesis
    using zero work by blast
qed

theorem GetBlockWork_value_witness:
  "SetCompact (nBits (blockWithBits 0x207fffff)) = (0x7fffff * 2 ^ 232, False, False)
   \<and> GetBlockWork (blockWithBits 0x207fffff) = Inr 2
   \<and> GetBlockProof (\<lambda>b. 4096) (blockWithBits 0x207fffff) = Inr 8192
   \<and> SetCompact (nBits (blockWithBits 0x1d80ffff)) = (0xffff * 2 ^ 208, True, False)
   \<and> GetBlockWork (blockWithBits 0x1d80ffff) = Inr 0"
proof -
  have d: "SetCompact (nBits (blockWithBits 0x207fffff)) = (0x7fffff * 2 ^ 232, False, False)"
    by (simp add: blockWithBits_def SetCompact_def)
  have e: "SetCompact (nBits (blockWithBits 0x1d80ffff)) = (0xffff * 2 ^ 208, True, False)"
    by (simp add: blockWithBits_def SetCompact_def)
  have q: "NOT (0x7fffff * 2 ^ 232 :: uint256) div (0x7fffff * 2 ^ 232 + 1) + 1 = 2"
    by simp
  show ?thesis
    using GetBlockWork_value [OF d, of "\<lambda>b. 4096"] GetBlockWork_value [OF e, of "\<lambda>b. 4096"] d e
    unfolding q by simp
qed

text \<open>
  Claim C9, as stated, fails: the representable targets \<open>2^255\<close> and \<open>129 * 2^248\<close> are
  different and both have work 1.
\<close>

theorem GetBlockWork_strict_counterexample:
  "compact_representable (2 ^ 255) \<and> compact_representable (129 * 2 ^ 248)
   \<and> (2 ^ 255 :: uint256) \<noteq> 0 \<and> (129 * 2 ^ 248 :: uint256) \<noteq> 0
   \<and> (2 ^ 255 :: uint256) < 129 * 2 ^ 248
   \<and> GetBlockWork (blockWithBits (GetCompact (2 ^ 255))) = Inr 1
   \<and> GetBlockWork (blockWithBits (GetCompact (129 * 2 ^ 248))) = Inr 1
   \<and> \<not> ((1 :: uint256) < 1)"
proof -
  have e1: "GetCompact (2 ^ 255) = 0x21008000"
    by (simp add: GetCompact_def bits_def bit_length.simps)
  have e2: "GetCompact (129 * 2 ^ 248) = 0x21008100"
    by (simp add: GetCompact_def bits_def bit_length.simps)
  have d1: "SetCompact 0x21008000 = (2 ^ 255, False, False)"
    by (simp add: SetCompact_def)
  have d2: "SetCompact 0x21008100 = (129 * 2 ^ 248, False, False)"
    by (simp add: SetCompact_def)
  have w1: "GetBlockWork (blockWithBits 0x21008000) = Inr 1"
    by (simp add: GetBlockWork_def blockWithBits_def d1)
  have w2: "GetBlockWork (blockWithBits 0x21008100) = Inr 1"
    by (simp add: GetBlockWork_def blockWithBits_def d2)
  show ?thesis
    unfolding compact_representable_def e1 e2 d1 d2 w1 w2 by simp
qed

text \<open>
  Claim C9, amended. For representable targets \<open>t1 < t2\<close>, \<open>t1\<close> not zero, the work of the
  encoding of \<open>t1\<close> is at least the work of the encoding of \<open>t2\<close>, and it is strictly
  greater whenever \<open>t1 < 2^236\<close>; by \<open>GetBlockWork_tie_above\<close> this bound cannot be
  raised. By \<open>compact_representable_iff\<close> the representable targets are the targets
  that some bits value decodes to with neither flag set.
\<close>

theorem GetBlockWork_antimono:
  assumes "compact_representable t1" and "compact_representable t2"
    and "t1 \<noteq> 0" and "t1 < t2"
    and "nBits block1 = GetCompact t1" and "nBits block2 = GetCompact t2"
  shows "\<exists>w1 w2. GetBlockWork block1 = Inr w1 \<and> GetBlockWork block2 = Inr w2
           \<and> unat w1 = 2 ^ 256 div (unat t1 + 1) \<and> unat w2 = 2 ^ 256 div (unat t2 + 1)
           \<and> w2 \<le> w1
           \<and> (unat t1 < 2 ^ 236 \<longrightarrow> w2 < w1)"
proof -
  let ?w1 = "NOT t1 div (t1 + 1) + 1" and ?w2 = "NOT t2 div (t2 + 1) + 1"
  have r1: "SetCompact (GetCompact t1) = (t1, False, False)"
    and r2: "SetCompact (GetCompact t2) = (t2, False, False)"
    using assms(1,2) by (simp_all add: compact_representable_def)
  have d1: "SetCompact (nBits block1) = (t1, False, False)"
    by (simp only: assms(5) r1)
  have d2: "SetCompact (nBits block2) = (t2, False, False)"
    by (simp only: assms(6) r2)
  have lt: "unat t1 < unat t2"
    using assms(4) by (simp add: word_less_nat_alt)
  have nz2: "t2 \<noteq> 0"
    using assms(4) by (auto simp add: word_less_nat_alt)
  have m1: "t1 + 1 \<noteq> 0"
    using SetCompact_not_max [of "nBits block1"] by (simp add: d1)
  have m2: "t2 + 1 \<noteq> 0"
    using SetCompact_not_max [of "nBits block2"] by (simp add: d2)
  have g1: "GetBlockWork block1 = Inr ?w1"
    using assms(3) m1 by (simp add: GetBlockWork_def d1)
  have g2: "GetBlockWork block2 = Inr ?w2"
    using nz2 m2 by (simp add: GetBlockWork_def d2)
  have u1: "unat ?w1 = 2 ^ 256 div (unat t1 + 1)"
    using assms(3) m1 by (rule work_identity)
  have u2: "unat ?w2 = 2 ^ 256 div (unat t2 + 1)"
    using nz2 m2 by (rule work_identity)
  have "(2 ^ 256 :: nat) div (unat t2 + 1) \<le> 2 ^ 256 div (unat t1 + 1)"
    using lt by (intro div_le_mono2) simp_all
  then have le: "?w2 \<le> ?w1"
    by (simp only: word_le_nat_alt u1 u2)
  have strict: "?w2 < ?w1" if small: "unat t1 < 2 ^ 236"
  proof -
    obtain a i where s1: "unat t1 = a * 2 ^ (8 * i)" "a < 2 ^ 23"
      using SetCompact_structure [OF r1 assms(3)] by blast
    obtain b j where s2: "unat t2 = b * 2 ^ (8 * j)" "b < 2 ^ 23"
      using SetCompact_structure [OF r2 nz2] by blast
    have "(2 ^ 256 :: nat) div (unat t2 + 1) < 2 ^ 256 div (unat t1 + 1)"
    proof (cases "unat t1 < 2 ^ 233")
      case True
      have "unat t1 < (unat t2 - unat t1) * 2 ^ 23"
        using s1 s2 lt by (rule representable_gap)
      then have gap: "unat t1 + 1 \<le> (unat t2 + 1 - (unat t1 + 1)) * 2 ^ 23"
        by simp
      have "2 ^ 23 * (unat t1 + 1) \<le> 2 ^ 23 * 2 ^ 233"
        using True by (intro mult_le_mono2) simp
      also have "\<dots> = (2 :: nat) ^ 256"
        by simp
      finally have fit: "2 ^ 23 * (unat t1 + 1) \<le> 2 ^ 256" .
      show ?thesis
        using _ _ gap fit by (rule div_antimono_gap) (use lt in simp_all)
    next
      case False
      then have big1: "2 ^ 233 \<le> unat t1"
        by simp
      then have big2: "2 ^ 233 \<le> unat t2"
        using lt by simp
      have "2 ^ 216 dvd unat t1"
        using s1 big1 by (rule large_granule)
      moreover have "2 ^ 216 dvd unat t2"
        using s2 big2 by (rule large_granule)
      ultimately have "2 ^ 216 dvd unat t2 - unat t1"
        by (rule dvd_diff_nat [rotated])
      moreover have "0 < unat t2 - unat t1"
        using lt by simp
      ultimately have d: "2 ^ 216 \<le> unat t2 - unat t1"
        by (rule dvd_imp_le)
      have "unat t1 + 1 \<le> 2 ^ 216 * 2 ^ 20"
        using small by simp
      also have "\<dots> \<le> (unat t2 - unat t1) * 2 ^ 20"
        using d by (rule mult_le_mono1)
      finally have gap: "unat t1 + 1 \<le> (unat t2 + 1 - (unat t1 + 1)) * 2 ^ 20"
        by simp
      have "2 ^ 20 * (unat t1 + 1) \<le> 2 ^ 20 * 2 ^ 236"
        using small by (intro mult_le_mono2) simp
      also have "\<dots> = (2 :: nat) ^ 256"
        by simp
      finally have fit: "2 ^ 20 * (unat t1 + 1) \<le> 2 ^ 256" .
      show ?thesis
        using _ _ gap fit by (rule div_antimono_gap) (use lt in simp_all)
    qed
    then show ?thesis
      by (simp only: word_less_nat_alt u1 u2)
  qed
  show ?thesis
    using g1 g2 u1 u2 le strict by blast
qed

theorem GetBlockWork_antimono_witness:
  "compact_representable 0xffffe000000000000000000000000000000000000000000000000000000 \<and> compact_representable 0xfffff000000000000000000000000000000000000000000000000000000
   \<and> (0xffffe000000000000000000000000000000000000000000000000000000 :: uint256) \<noteq> 0 \<and> (0xffffe000000000000000000000000000000000000000000000000000000 :: uint256) < 0xfffff000000000000000000000000000000000000000000000000000000
   \<and> unat (0xffffe000000000000000000000000000000000000000000000000000000 :: uint256) < 2 ^ 236
   \<and> GetBlockWork (blockWithBits (GetCompact 0xffffe000000000000000000000000000000000000000000000000000000)) = Inr 1048578
   \<and> GetBlockWork (blockWithBits (GetCompact 0xfffff000000000000000000000000000000000000000000000000000000)) = Inr 1048577
   \<and> (1048577 :: uint256) < 1048578"
proof -
  have e1: "GetCompact 0xffffe000000000000000000000000000000000000000000000000000000 = 0x1e0ffffe"
    by (simp add: GetCompact_def bits_def bit_length.simps)
  have e2: "GetCompact 0xfffff000000000000000000000000000000000000000000000000000000 = 0x1e0fffff"
    by (simp add: GetCompact_def bits_def bit_length.simps)
  have d1: "SetCompact 0x1e0ffffe = (0xffffe000000000000000000000000000000000000000000000000000000, False, False)"
    by (simp add: SetCompact_def)
  have d2: "SetCompact 0x1e0fffff = (0xfffff000000000000000000000000000000000000000000000000000000, False, False)"
    by (simp add: SetCompact_def)
  have r1: "compact_representable 0xffffe000000000000000000000000000000000000000000000000000000"
    by (simp add: compact_representable_def e1 d1)
  have r2: "compact_representable 0xfffff000000000000000000000000000000000000000000000000000000"
    by (simp add: compact_representable_def e2 d2)
  have nz: "(0xffffe000000000000000000000000000000000000000000000000000000 :: uint256) \<noteq> 0" and lt: "(0xffffe000000000000000000000000000000000000000000000000000000 :: uint256) < 0xfffff000000000000000000000000000000000000000000000000000000"
    and small: "unat (0xffffe000000000000000000000000000000000000000000000000000000 :: uint256) < 2 ^ 236"
    by simp_all
  have b1: "nBits (blockWithBits (GetCompact 0xffffe000000000000000000000000000000000000000000000000000000)) = GetCompact 0xffffe000000000000000000000000000000000000000000000000000000"
    and b2: "nBits (blockWithBits (GetCompact 0xfffff000000000000000000000000000000000000000000000000000000)) = GetCompact 0xfffff000000000000000000000000000000000000000000000000000000"
    by (simp_all add: blockWithBits_def)
  have w1: "GetBlockWork (blockWithBits (GetCompact 0xffffe000000000000000000000000000000000000000000000000000000)) = Inr 1048578"
    by (simp add: GetBlockWork_def blockWithBits_def e1 d1)
  have w2: "GetBlockWork (blockWithBits (GetCompact 0xfffff000000000000000000000000000000000000000000000000000000)) = Inr 1048577"
    by (simp add: GetBlockWork_def blockWithBits_def e2 d2)
  show ?thesis
    using GetBlockWork_antimono [OF r1 r2 nz lt b1 b2] r1 r2 w1 w2
    by simp
qed

end
